theory Spec2Isabelle
  imports Complex_Main "HOL-Library.Word"
begin

section \<open>Machine integers and arrays\<close>

text \<open>
  \<^verbatim>\<open>unsigned int\<close> is 32 bits wide on every platform the tools are built for; its
  arithmetic wraps around.  A C array is a list; a read or a write outside of it is
  undefined behaviour in C and is the value \<open>None\<close> here.
\<close>

type_synonym uint = "32 word"

definition rd :: "'a list \<Rightarrow> nat \<Rightarrow> 'a option" where
  "rd xs i = (if i < length xs then Some (xs ! i) else None)"

definition wr :: "'a list \<Rightarrow> nat \<Rightarrow> 'a \<Rightarrow> 'a list option" where
  "wr xs i v = (if i < length xs then Some (xs[i := v]) else None)"

section \<open>Shared definitions (wav-lib.h)\<close>

definition MIN_FREQ :: uint where "MIN_FREQ = 200"

definition MIN_DURATION :: uint where "MIN_DURATION = 3"

declare MIN_FREQ_def [simp] MIN_DURATION_def [simp]

record audio =
  channels :: uint
  sample_rate :: uint
  bits_per_sample :: uint
  duration_s :: uint
  freqs_per_chan :: uint
  samples_per_chan :: uint

section \<open>The detected-frequency list (wav-analyzer.c)\<close>

definition MAX_FREQS_PER_CHAN :: uint where "MAX_FREQS_PER_CHAN = 64"

definition FREQ_ACCURACY :: uint where "FREQ_ACCURACY = 1"

declare MAX_FREQS_PER_CHAN_def [simp] FREQ_ACCURACY_def [simp]

text \<open>\<^verbatim>\<open>freqs_are_equal\<close>: both bounds are computed in unsigned arithmetic.\<close>

definition freqs_are_equal :: "uint \<Rightarrow> uint \<Rightarrow> uint \<Rightarrow> bool" where
  "freqs_are_equal f1 f2 accuracy = (f1 \<le> f2 + accuracy \<and> f1 \<ge> f2 - accuracy)"

text \<open>
  \<^verbatim>\<open>freq_is_listed\<close>: the loop over \<open>i\<close>, bounded by \<open>MAX_FREQS_PER_CHAN\<close> and left
  at \<open>i == nfreqs\<close>.
\<close>

function freq_is_listed_from :: "uint list \<Rightarrow> uint \<Rightarrow> uint \<Rightarrow> uint \<Rightarrow> bool option" where
  "freq_is_listed_from freqs nfreqs frequency i =
     (if i < MAX_FREQS_PER_CHAN then
        if i = nfreqs then Some False
        else (case rd freqs (unat i) of
                None \<Rightarrow> None
              | Some f \<Rightarrow>
                  if freqs_are_equal frequency f FREQ_ACCURACY then Some True
                  else freq_is_listed_from freqs nfreqs frequency (i + 1))
      else Some False)"
  by pat_completeness auto
termination
proof (relation "measure (\<lambda>(freqs, nfreqs, frequency, i). 64 - unat i)")
  show "wf (measure (\<lambda>(freqs, nfreqs, frequency, i). 64 - unat i))" by simp
next
  fix freqs :: "uint list" and nfreqs frequency i :: uint and f :: uint
  assume "i < MAX_FREQS_PER_CHAN"
  then have "unat i < 64" by (simp add: word_less_nat_alt)
  moreover from this have "unat (i + 1) = unat i + 1"
    by (simp add: unat_word_ariths)
  ultimately show "((freqs, nfreqs, frequency, i + 1), (freqs, nfreqs, frequency, i))
      \<in> measure (\<lambda>(freqs, nfreqs, frequency, i). 64 - unat i)"
    by simp
qed

declare freq_is_listed_from.simps [simp del]

definition freq_is_listed :: "uint list \<Rightarrow> uint \<Rightarrow> uint \<Rightarrow> bool option" where
  "freq_is_listed freqs nfreqs frequency = freq_is_listed_from freqs nfreqs frequency 0"

text \<open>
  The list of one channel: the array \<^verbatim>\<open>cfreqs[c]\<close>, its count \<^verbatim>\<open>ncfreqs[c]\<close>, and what
  the calls have printed on the standard error stream.
\<close>

record freq_list =
  cfreqs :: "uint list"
  ncfreqs :: uint
  diag :: "string list"

definition add_freq_to_list :: "freq_list \<Rightarrow> uint \<Rightarrow> freq_list option" where
  "add_freq_to_list l frequency =
     (if ncfreqs l + 1 \<ge> MAX_FREQS_PER_CHAN then
        Some (l\<lparr>diag := diag l @ [''Maximum number of detected frequencies reached'']\<rparr>)
      else
        (case freq_is_listed (cfreqs l) (ncfreqs l) frequency of
           None \<Rightarrow> None
         | Some True \<Rightarrow> Some l
         | Some False \<Rightarrow>
             (case wr (cfreqs l) (unat (ncfreqs l)) frequency of
                None \<Rightarrow> None
              | Some freqs' \<Rightarrow> Some (l\<lparr>cfreqs := freqs', ncfreqs := ncfreqs l + 1\<rparr>))))"

text \<open>
  The list as \<^verbatim>\<open>main\<close> allocates it: \<^verbatim>\<open>alloc_matrix\<close> gives every channel
  \<open>MAX_FREQS_PER_CHAN\<close> zeroed entries, \<^verbatim>\<open>calloc\<close> a zero count.
\<close>

definition empty_freq_list :: freq_list where
  "empty_freq_list = \<lparr>cfreqs = replicate 64 0, ncfreqs = 0, diag = []\<rparr>"

text \<open>A sequence of calls of \<^verbatim>\<open>add_freq_to_list\<close> on the same list.\<close>

fun add_freqs :: "freq_list \<Rightarrow> uint list \<Rightarrow> freq_list option" where
  "add_freqs l [] = Some l"
| "add_freqs l (f # fs) =
     (case add_freq_to_list l f of None \<Rightarrow> None | Some l' \<Rightarrow> add_freqs l' fs)"

section \<open>The frequency planner (wav-lib.c)\<close>

text \<open>
  The two spacings of \<^verbatim>\<open>fill_desired_freqs\<close>, in unsigned arithmetic as the code
  computes them.  In C a division by zero has no defined result; \<open>fill_desired_freqs\<close>
  below returns \<open>None\<close> there, before these are used.
\<close>

definition delta_f :: "audio \<Rightarrow> uint" where
  "delta_f wav = ((sample_rate wav div 2) - MIN_FREQ) div freqs_per_chan wav"

definition delta_c :: "audio \<Rightarrow> uint" where
  "delta_c wav = delta_f wav div (channels wav + 1)"

text \<open>
  The inner loop, over the tone index \<open>i\<close>: it stores into \<^verbatim>\<open>freqs[c][i]\<close>.  The matrix
  is a list of rows; a store outside of it is \<open>None\<close>.
\<close>

function fill_chan :: "audio \<Rightarrow> uint \<Rightarrow> uint \<Rightarrow> uint \<Rightarrow> uint \<Rightarrow> uint list list \<Rightarrow> uint list list option" where
  "fill_chan wav df dc c i freqs =
     (if i < freqs_per_chan wav then
        (case rd freqs (unat c) of
           None \<Rightarrow> None
         | Some row \<Rightarrow>
             (case wr row (unat i) ((MIN_FREQ + i * df) + c * dc) of
                None \<Rightarrow> None
              | Some row' \<Rightarrow> fill_chan wav df dc c (i + 1) (freqs[unat c := row'])))
      else Some freqs)"
  by pat_completeness auto
termination
proof (relation "measure (\<lambda>(wav, df, dc, c, i, freqs). unat (freqs_per_chan wav) - unat i)")
  show "wf (measure (\<lambda>(wav, df, dc, c, i, freqs). unat (freqs_per_chan wav) - unat i))" by simp
next
  fix wav :: audio and df dc c i :: uint and freqs :: "uint list list" and x2 x2a :: "uint list"
  assume "i < freqs_per_chan wav"
  then have lt: "unat i < unat (freqs_per_chan wav)" by (simp add: word_less_nat_alt)
  have "unat (freqs_per_chan wav) < 2 ^ 32" using unsigned_less [of "freqs_per_chan wav", where 'a=nat] by simp
  with lt have "unat (i + 1) = unat i + 1" by (simp add: unat_word_ariths)
  with lt show "((wav, df, dc, c, i + 1, freqs[unat c := x2a]), (wav, df, dc, c, i, freqs))
      \<in> measure (\<lambda>(wav, df, dc, c, i, freqs). unat (freqs_per_chan wav) - unat i)"
    by simp
qed

declare fill_chan.simps [simp del]

text \<open>The outer loop, over the channel \<open>c\<close>.\<close>

function fill_chans :: "audio \<Rightarrow> uint \<Rightarrow> uint \<Rightarrow> uint \<Rightarrow> uint list list \<Rightarrow> uint list list option" where
  "fill_chans wav df dc c freqs =
     (if c < channels wav then
        (case fill_chan wav df dc c 0 freqs of
           None \<Rightarrow> None
         | Some freqs' \<Rightarrow> fill_chans wav df dc (c + 1) freqs')
      else Some freqs)"
  by pat_completeness auto
termination
proof (relation "measure (\<lambda>(wav, df, dc, c, freqs). unat (channels wav) - unat c)")
  show "wf (measure (\<lambda>(wav, df, dc, c, freqs). unat (channels wav) - unat c))" by simp
next
  fix wav :: audio and df dc c :: uint and freqs x2 :: "uint list list"
  assume "c < channels wav"
  then have lt: "unat c < unat (channels wav)" by (simp add: word_less_nat_alt)
  have "unat (channels wav) < 2 ^ 32" using unsigned_less [of "channels wav", where 'a=nat] by simp
  with lt have "unat (c + 1) = unat c + 1" by (simp add: unat_word_ariths)
  with lt show "((wav, df, dc, c + 1, x2), (wav, df, dc, c, freqs))
      \<in> measure (\<lambda>(wav, df, dc, c, freqs). unat (channels wav) - unat c)"
    by simp
qed

declare fill_chans.simps [simp del]

text \<open>
  The result is the returned \<^verbatim>\<open>int\<close>, the matrix as the call leaves it, and what it has
  printed on the standard error stream.
\<close>

definition fill_desired_freqs :: "uint list list \<Rightarrow> audio \<Rightarrow> (int \<times> uint list list \<times> string list) option" where
  "fill_desired_freqs freqs wav =
     (if freqs_per_chan wav = 0 \<or> channels wav + 1 = 0 then None
      else if delta_f wav = 0 \<or> delta_c wav = 0 then
        Some (- 1, freqs, [''Cannot generate sine waves: not enough range''])
      else
        (case fill_chans wav (delta_f wav) (delta_c wav) 0 freqs of
           None \<Rightarrow> None
         | Some freqs' \<Rightarrow> Some (0, freqs', [])))"

text \<open>
  The plan as the specification words it, over the natural numbers:
  \<open>delta_f = floor((sample_rate/2 - MIN_FREQ) / tones_per_channel)\<close>,
  \<open>delta_c = floor(delta_f / (channels + 1))\<close> and
  \<open>frequency = MIN_FREQ + i*delta_f + c*delta_c\<close>.
\<close>

definition spec_delta_f :: "nat \<Rightarrow> nat \<Rightarrow> nat" where
  "spec_delta_f sr tones = (sr div 2 - 200) div tones"

definition spec_delta_c :: "nat \<Rightarrow> nat \<Rightarrow> nat \<Rightarrow> nat" where
  "spec_delta_c ch sr tones = spec_delta_f sr tones div (ch + 1)"

definition spec_frequency :: "nat \<Rightarrow> nat \<Rightarrow> nat \<Rightarrow> nat \<Rightarrow> nat \<Rightarrow> nat" where
  "spec_frequency ch sr tones c i =
     200 + i * spec_delta_f sr tones + c * spec_delta_c ch sr tones"

text \<open>The matrix that the two loops leave behind, in closed form.\<close>

definition planned :: "audio \<Rightarrow> uint list list" where
  "planned wav =
     map (\<lambda>j. map (\<lambda>k. (MIN_FREQ + of_nat k * delta_f wav) + of_nat j * delta_c wav)
                [0..<unat (freqs_per_chan wav)])
       [0..<unat (channels wav)]"

text \<open>Two channels at 48 kHz with four tones each, the generator's defaults.\<close>

definition wav_default :: audio where
  "wav_default = \<lparr>channels = 2, sample_rate = 48000, bits_per_sample = 32,
     duration_s = 10, freqs_per_chan = 4, samples_per_chan = 480000\<rparr>"

section \<open>The comparison with the expected frequencies (main, wav-analyzer.c)\<close>

text \<open>
  What \<^verbatim>\<open>main\<close> prints on the standard output for one channel in comparison mode, one
  value per line: the header of the channel (with the word ``empty'' when nothing was
  detected, and the threshold), for every expected frequency its index and value with
  \<^verbatim>\<open>KO\<close> or \<^verbatim>\<open>ok\<close> (and the difference in Hz when it is not zero), then the header
  of the unexpected frequencies and one line for each of them.
\<close>

datatype report =
    Expected_header uint bool real
  | Expected_KO uint uint
  | Expected_ok uint uint "int option"
  | Spurious_header uint
  | Spurious uint

text \<open>
  The loop over the expected frequencies of channel \<open>c\<close>: \<open>cf\<close> is \<^verbatim>\<open>cfreqs[c]\<close>,
  \<open>ncf\<close> is \<^verbatim>\<open>ncfreqs[c]\<close>, \<open>ef\<close> is \<^verbatim>\<open>efreqs[c]\<close>.  The difference is
  \<^verbatim>\<open>int diff = cfreqs[c][i] - efreqs[c][i]\<close>: an unsigned subtraction read as a signed
  value.
\<close>

function compare_expected ::
  "audio \<Rightarrow> uint list \<Rightarrow> uint \<Rightarrow> uint list \<Rightarrow> uint \<Rightarrow> uint \<Rightarrow> report list
     \<Rightarrow> (uint \<times> report list) option" where
  "compare_expected wav cf ncf ef i found out =
     (if i < freqs_per_chan wav then
        (case rd ef (unat i) of
           None \<Rightarrow> None
         | Some e \<Rightarrow>
             (case freq_is_listed cf ncf e of
                None \<Rightarrow> None
              | Some False \<Rightarrow>
                  compare_expected wav cf ncf ef (i + 1) found (out @ [Expected_KO i e])
              | Some True \<Rightarrow>
                  (case rd cf (unat i) of
                     None \<Rightarrow> None
                   | Some d \<Rightarrow>
                       compare_expected wav cf ncf ef (i + 1) (found + 1)
                         (out @ [Expected_ok i e
                            (if sint (d - e) = 0 then None else Some (sint (d - e)))]))))
      else Some (found, out))"
  by pat_completeness auto
termination
proof (relation "measure (\<lambda>(wav, cf, ncf, ef, i, found, out). unat (freqs_per_chan wav) - unat i)")
  show "wf (measure (\<lambda>(wav, cf, ncf, ef, i, found, out). unat (freqs_per_chan wav) - unat i))"
    by simp
next
  fix wav :: audio and cf ef :: "uint list" and ncf i found :: uint and out :: "report list"
    and x2 :: uint and x2a :: bool
  assume "i < freqs_per_chan wav"
  then have lt: "unat i < unat (freqs_per_chan wav)" by (simp add: word_less_nat_alt)
  have "unat (freqs_per_chan wav) < 2 ^ 32"
    using unsigned_less [of "freqs_per_chan wav", where 'a=nat] by simp
  with lt have "unat (i + 1) = unat i + 1" by (simp add: unat_word_ariths)
  with lt show "((wav, cf, ncf, ef, i + 1, found, out @ [Expected_KO i x2]),
       wav, cf, ncf, ef, i, found, out)
      \<in> measure (\<lambda>(wav, cf, ncf, ef, i, found, out). unat (freqs_per_chan wav) - unat i)"
    by simp
next
  fix wav :: audio and cf ef :: "uint list" and ncf i found :: uint and out :: "report list"
    and x2 x2b :: uint and x2a :: bool
  assume "i < freqs_per_chan wav"
  then have lt: "unat i < unat (freqs_per_chan wav)" by (simp add: word_less_nat_alt)
  have "unat (freqs_per_chan wav) < 2 ^ 32"
    using unsigned_less [of "freqs_per_chan wav", where 'a=nat] by simp
  with lt have "unat (i + 1) = unat i + 1" by (simp add: unat_word_ariths)
  with lt show "((wav, cf, ncf, ef, i + 1, found + 1,
        out @ [Expected_ok i x2 (if sint (x2b - x2) = 0 then None else Some (sint (x2b - x2)))]),
       wav, cf, ncf, ef, i, found, out)
      \<in> measure (\<lambda>(wav, cf, ncf, ef, i, found, out). unat (freqs_per_chan wav) - unat i)"
    by simp
qed

declare compare_expected.simps [simp del]

text \<open>The loop over the detected frequencies, run when \<^verbatim>\<open>found < ncfreqs[c]\<close>.\<close>

function report_spurious ::
  "audio \<Rightarrow> uint list \<Rightarrow> uint \<Rightarrow> uint list \<Rightarrow> uint \<Rightarrow> report list \<Rightarrow> report list option" where
  "report_spurious wav cf ncf ef i out =
     (if i < ncf then
        (case rd cf (unat i) of
           None \<Rightarrow> None
         | Some d \<Rightarrow>
             (case freq_is_listed ef (freqs_per_chan wav) d of
                None \<Rightarrow> None
              | Some is_listed \<Rightarrow>
                  report_spurious wav cf ncf ef (i + 1)
                    (if \<not> is_listed then out @ [Spurious d] else out)))
      else Some out)"
  by pat_completeness auto
termination
proof (relation "measure (\<lambda>(wav, cf, ncf, ef, i, out). unat ncf - unat i)")
  show "wf (measure (\<lambda>(wav, cf, ncf, ef, i, out). unat ncf - unat i))" by simp
next
  fix wav :: audio and cf ef :: "uint list" and ncf i x2 :: uint and out :: "report list"
    and x2a :: bool
  assume "i < ncf"
  then have lt: "unat i < unat ncf" by (simp add: word_less_nat_alt)
  have "unat ncf < 2 ^ 32" using unsigned_less [of ncf, where 'a=nat] by simp
  with lt have "unat (i + 1) = unat i + 1" by (simp add: unat_word_ariths)
  with lt show "((wav, cf, ncf, ef, i + 1, if \<not> x2a then out @ [Spurious x2] else out),
       wav, cf, ncf, ef, i, out)
      \<in> measure (\<lambda>(wav, cf, ncf, ef, i, out). unat ncf - unat i)"
    by simp
qed

declare report_spurious.simps [simp del]

definition compare_channel ::
  "audio \<Rightarrow> uint \<Rightarrow> uint list \<Rightarrow> uint \<Rightarrow> real \<Rightarrow> uint list \<Rightarrow> report list option" where
  "compare_channel wav c cf ncf threshold ef =
     (case compare_expected wav cf ncf ef 0 0 [Expected_header c (ncf = 0) threshold] of
        None \<Rightarrow> None
      | Some (found, out) \<Rightarrow>
          if found < ncf then report_spurious wav cf ncf ef 0 (out @ [Spurious_header c])
          else Some out)"

text \<open>
  The words of the specification: a detected frequency is within the tolerance of an
  expected one when they differ by at most 1 Hz, and the first qualifying match of an
  expected frequency is the first detected frequency of the channel within its tolerance.
\<close>

definition spec_within_tolerance :: "uint \<Rightarrow> uint \<Rightarrow> bool" where
  "spec_within_tolerance d e = (unat d \<le> unat e + 1 \<and> unat e \<le> unat d + 1)"

definition spec_first_qualifying :: "uint list \<Rightarrow> uint \<Rightarrow> uint \<Rightarrow> uint option" where
  "spec_first_qualifying cf ncf e = find (\<lambda>d. spec_within_tolerance d e) (take (unat ncf) cf)"

text \<open>
  One channel at 48 kHz with four expected tones, and one channel at 422 Hz with four
  expected tones that are 2 Hz apart.
\<close>

definition wav_tones :: audio where
  "wav_tones = \<lparr>channels = 1, sample_rate = 48000, bits_per_sample = 32,
     duration_s = 10, freqs_per_chan = 4, samples_per_chan = 480000\<rparr>"

definition wav_dense :: audio where
  "wav_dense = \<lparr>channels = 1, sample_rate = 422, bits_per_sample = 32,
     duration_s = 10, freqs_per_chan = 4, samples_per_chan = 4220\<rparr>"

section \<open>The header of the container (wav-lib.h, wav-analyzer.c)\<close>

text \<open>
  \<^verbatim>\<open>struct wav_format\<close> with the two structures nested in it: \<open>hdr_channels\<close> is its
  field \<^verbatim>\<open>channels\<close>, \<open>hdr_bits_per_sample\<close> is \<^verbatim>\<open>pcm_format.bits_per_sample\<close> and
  \<open>chunk_size\<close> is \<^verbatim>\<open>data_container.chunk_size\<close>, the declared length of the data.
\<close>

record wav_format =
  format_tag :: "16 word"
  hdr_channels :: "16 word"
  samples_per_sec :: "32 word"
  avg_bytes_per_sec :: "32 word"
  block_align :: "16 word"
  hdr_bits_per_sample :: "16 word"
  chunk_size :: "32 word"

text \<open>
  \<^verbatim>\<open>extract_audio_parameters\<close> returns its \<^verbatim>\<open>int\<close>, the descriptor as it has filled it,
  and its lines on the standard error stream (without the numbers printed in them).
  \<^verbatim>\<open>data_sz\<close> is an \<^verbatim>\<open>int\<close>; where it meets an \<^verbatim>\<open>unsigned int\<close> in \<^verbatim>\<open>%\<close> and
  \<^verbatim>\<open>/\<close>, C converts it to \<^verbatim>\<open>unsigned int\<close>, so both are the unsigned operations on the
  32 bits of \<^verbatim>\<open>chunk_size\<close>; the returned value reads these bits as a signed number.
\<close>

definition extract_audio_parameters :: "wav_format \<Rightarrow> audio \<Rightarrow> int \<times> audio \<times> string list" where
  "extract_audio_parameters wav_format wav0 =
     (let wav1 = wav0\<lparr>channels := ucast (hdr_channels wav_format),
                      sample_rate := samples_per_sec wav_format\<rparr>;
          data_sz = chunk_size wav_format
      in if channels wav1 = 0 \<or> sample_rate wav1 = 0 \<or> data_sz = 0
            \<or> data_sz mod channels wav1 \<noteq> 0
         then (- 1, wav1, [''Corrupted header''])
         else
           let wav2 = wav1\<lparr>bits_per_sample := ucast (hdr_bits_per_sample wav_format)\<rparr> in
           if bits_per_sample wav2 \<noteq> 32 \<and> bits_per_sample wav2 \<noteq> 24
              \<and> bits_per_sample wav2 \<noteq> 16
           then (- 1, wav2, [''Unsupported bits per sample''])
           else
             let err = (if bits_per_sample wav2 = 32 then [] else [''FYI: Untested behavior'']);
                 wav3 = wav2\<lparr>samples_per_chan :=
                          data_sz div channels wav2 div (bits_per_sample wav2 div 8)\<rparr>;
                 wav4 = wav3\<lparr>duration_s := samples_per_chan wav3 div sample_rate wav3\<rparr>
             in if duration_s wav4 < MIN_DURATION
                then (- 1, wav4, err @ [''Audio file too short''])
                else (sint data_sz, wav4, err))"

text \<open>
  The beginning of \<^verbatim>\<open>main\<close>, after the arguments are parsed and up to the reading of
  the sound data.  \<open>riff\<close> is the
  header read from the standard input (\<open>None\<close> when fewer bytes than a header come),
  \<open>payload\<close> are the bytes that follow it, \<open>malloc_ok n\<close> tells whether \<^verbatim>\<open>malloc\<close> gives
  \<open>n\<close> bytes, and \<open>analyze\<close> is the rest of \<^verbatim>\<open>main\<close>: the analysis of the channels
  and the report, the only part that writes on the standard output.  The result is the
  value that \<^verbatim>\<open>main\<close> returns and the lines on the standard output.  \<^verbatim>\<open>size_t\<close> has
  64 bits; \<^verbatim>\<open>main\<close> stores the \<^verbatim>\<open>int\<close> of \<^verbatim>\<open>extract_audio_parameters\<close> in a
  \<^verbatim>\<open>size_t\<close> before it tests \<^verbatim>\<open>data_sz <= 0\<close>.
\<close>

type_synonym size_t = "64 word"

definition main_decode ::
  "(nat \<Rightarrow> bool) \<Rightarrow> (audio \<Rightarrow> 8 word list \<Rightarrow> int \<times> 'o list) \<Rightarrow> audio
     \<Rightarrow> wav_format option \<Rightarrow> 8 word list \<Rightarrow> int \<times> 'o list" where
  "main_decode malloc_ok analyze wav0 riff payload =
     (case riff of
        None \<Rightarrow> (- 1, [])
      | Some wav_format \<Rightarrow>
          (case extract_audio_parameters wav_format wav0 of
             (r, wav, err) \<Rightarrow>
               let data_sz = (of_int r :: size_t) in
               if data_sz \<le> 0 then (1, [])
               else if \<not> malloc_ok (unat data_sz) then (- 1, [])
               else if min (unat data_sz) (length payload) \<noteq> unat data_sz then (- 1, [])
               else analyze wav (take (unat data_sz) payload)))"

text \<open>
  The headers that the specification rejects: no channel, no sample rate, no data or a
  data length that the channel count does not divide, a sample width other than 16, 24
  and 32 bits, or a derived duration below \<open>MIN_DURATION\<close>.
\<close>

definition spec_corrupt_header :: "wav_format \<Rightarrow> bool" where
  "spec_corrupt_header h =
     (hdr_channels h = 0 \<or> samples_per_sec h = 0 \<or> chunk_size h = 0
      \<or> \<not> unat (hdr_channels h) dvd unat (chunk_size h)
      \<or> unat (hdr_bits_per_sample h) \<notin> {16, 24, 32}
      \<or> unat (chunk_size h) div unat (hdr_channels h) div (unat (hdr_bits_per_sample h) div 8)
           div unat (samples_per_sec h) < unat MIN_DURATION)"

text \<open>The descriptor of \<^verbatim>\<open>main\<close> before the header is read.\<close>

definition wav_empty :: audio where
  "wav_empty = \<lparr>channels = 0, sample_rate = 0, bits_per_sample = 0, duration_s = 0,
     freqs_per_chan = 0, samples_per_chan = 0\<rparr>"

text \<open>
  The checks at the end of \<^verbatim>\<open>parse_args\<close> of the generator, on the descriptor built
  from the options: the message of the check that fails, or \<open>None\<close>.  The analyzer has
  no such check on the sample rate of a header.
\<close>

definition generator_checks :: "audio \<Rightarrow> string option" where
  "generator_checks wav =
     (if sample_rate wav < 2 * MIN_FREQ then Some ''Invalid frequency''
      else if bits_per_sample wav \<noteq> 16 \<and> bits_per_sample wav \<noteq> 32
      then Some ''Unsupported number of bits per sample''
      else if duration_s wav < MIN_DURATION then Some ''Audio file would be too short''
      else None)"

text \<open>
  The descriptors that the analyzer has after it has decoded the header of ten seconds
  of one channel of 32-bit samples, at 100 Hz and at 398 Hz, when two expected
  frequencies are asked for.  Half of either sample rate is below \<open>MIN_FREQ\<close>.
\<close>

definition wav_100hz :: audio where
  "wav_100hz = \<lparr>channels = 1, sample_rate = 100, bits_per_sample = 32,
     duration_s = 10, freqs_per_chan = 2, samples_per_chan = 1000\<rparr>"

definition wav_398hz :: audio where
  "wav_398hz = \<lparr>channels = 1, sample_rate = 398, bits_per_sample = 32,
     duration_s = 10, freqs_per_chan = 2, samples_per_chan = 3980\<rparr>"

section \<open>The analysis of one window (wav-analyzer.c)\<close>

text \<open>
  A \<^verbatim>\<open>double\<close> is read as the real number it denotes, and the arithmetic on doubles as
  the arithmetic on these reals; the claims below are about the control flow and the
  writes of \<^verbatim>\<open>extract_frequencies\<close>, which the rounding of the operations does not
  change.  The variables \<^verbatim>\<open>size\<close>, \<^verbatim>\<open>power\<close> and \<^verbatim>\<open>above\<close> of the source are
  \<open>wsize\<close>, \<open>pwr\<close> and \<open>is_above\<close> here, their names being taken in HOL.
\<close>

definition POWER_NOISE_LEVEL :: real where "POWER_NOISE_LEVEL = 5"

definition hann_window :: "real \<Rightarrow> nat \<Rightarrow> nat \<Rightarrow> real" where
  "hann_window val idx len = val * 0.5 * (1 - cos (2 * pi * real idx / real len))"

text \<open>\<^verbatim>\<open>hypot\<close> of the C library.\<close>

definition hypot :: "real \<Rightarrow> real \<Rightarrow> real" where
  "hypot x y = sqrt (x\<^sup>2 + y\<^sup>2)"

text \<open>
  What \<^verbatim>\<open>main\<close> owns for one channel and hands on to \<^verbatim>\<open>extract_frequencies\<close>: the
  waveform \<^verbatim>\<open>wave\<close>, the list of detected frequencies (\<^verbatim>\<open>cfreqs[c]\<close> and
  \<^verbatim>\<open>ncfreqs[c]\<close>) and the threshold \<^verbatim>\<open>thresholds[c]\<close>.
\<close>

record channel =
  wave :: "real list"
  detected :: freq_list
  max_thresh :: real

text \<open>
  A part of the function either has no defined behaviour (\<open>Fault\<close>), or makes the
  function return at once (\<open>Return\<close>), or goes on with a value.
\<close>

datatype 'a step = Fault | Return | Go 'a

text \<open>
  The power of the bins, from the packed output of the transform of \<open>n\<close> samples:
  \<^verbatim>\<open>power[0] = data[0]\<close>, then the loop, then \<^verbatim>\<open>power[power_len - 1] = data[size / 2]\<close>.
\<close>

definition power_spectrum :: "real list \<Rightarrow> nat \<Rightarrow> real list" where
  "power_spectrum data n =
     map (\<lambda>k. if k = n div 2 then data ! (n div 2)
              else if k = 0 then data ! 0
              else hypot (data ! k) (data ! (n - k)))
       [0..<n div 2 + 1]"

text \<open>
  The first steps: the copy of the window, which starts at \<open>off\<close> in the waveform (the
  pointer \<^verbatim>\<open>&wave[i]\<close> of \<^verbatim>\<open>main\<close>), into the local array \<^verbatim>\<open>data\<close>, the Hann window,
  the transform in place, the power.  The transform of the GSL library is the parameter
  \<open>fft\<close>: it gives the array after the call, or \<open>None\<close> when the call returns an error.
  An array of no element and a copy from outside the waveform have no defined behaviour.
\<close>

definition window_power ::
  "(real list \<Rightarrow> real list option) \<Rightarrow> channel \<Rightarrow> nat \<Rightarrow> uint \<Rightarrow> real list step" where
  "window_power fft st off wsize =
     (if wsize = 0 \<or> length (wave st) < off + unat wsize then Fault
      else
        let data = take (unat wsize) (drop off (wave st));
            data = map (\<lambda>i. hann_window (data ! i) i (unat wsize)) [0..<unat wsize]
        in case fft data of
             None \<Rightarrow> Return
           | Some data \<Rightarrow>
               if length data \<noteq> unat wsize then Fault
               else Go (power_spectrum data (unat wsize)))"

text \<open>
  The first bin considered, \<^verbatim>\<open>MIN_FREQ * size / wav->sample_rate\<close> in unsigned
  arithmetic, the maximum over the bins from there to \<^verbatim>\<open>power_len - 1\<close>, and the
  threshold, half of the maximum.
\<close>

definition first_bin :: "audio \<Rightarrow> uint \<Rightarrow> nat" where
  "first_bin wav wsize = unat (MIN_FREQ * wsize div sample_rate wav)"

definition maximum_power :: "real list \<Rightarrow> nat \<Rightarrow> nat \<Rightarrow> real" where
  "maximum_power pwr start stop =
     foldl (\<lambda>maximum i. if pwr ! i > maximum then pwr ! i else maximum) 0 [start..<stop]"

definition window_threshold ::
  "(real list \<Rightarrow> real list option) \<Rightarrow> audio \<Rightarrow> channel \<Rightarrow> nat \<Rightarrow> uint
     \<Rightarrow> (real list \<times> real) step" where
  "window_threshold fft wav st off wsize =
     (case window_power fft st off wsize of
        Fault \<Rightarrow> Fault
      | Return \<Rightarrow> Return
      | Go pwr \<Rightarrow>
          if sample_rate wav = 0 then Fault
          else Go (pwr, maximum_power pwr (first_bin wav wsize) (unat wsize div 2) / 2))"

text \<open>
  The loop that reads the peaks, over the bins \<open>i\<close>, with the local variables
  \<^verbatim>\<open>above\<close>, \<^verbatim>\<open>local_max\<close> and \<^verbatim>\<open>local_max_idx\<close>.
\<close>

fun find_peaks ::
  "audio \<Rightarrow> uint \<Rightarrow> real list \<Rightarrow> real \<Rightarrow> nat list \<Rightarrow> bool \<times> real \<times> nat \<Rightarrow> freq_list
     \<Rightarrow> freq_list option" where
  "find_peaks wav wsize pwr threshold [] (is_above, local_max, local_max_idx) l = Some l"
| "find_peaks wav wsize pwr threshold (i # is) (is_above, local_max, local_max_idx) l =
     (if pwr ! i > threshold then
        find_peaks wav wsize pwr threshold is
          (True, if pwr ! i > local_max then pwr ! i else local_max,
                 if pwr ! i > local_max then i else local_max_idx) l
      else
        (case (if is_above
               then add_freq_to_list l (sample_rate wav * of_nat local_max_idx div wsize)
               else Some l) of
           None \<Rightarrow> None
         | Some l' \<Rightarrow> find_peaks wav wsize pwr threshold is (False, 0, local_max_idx) l'))"

definition extract_frequencies ::
  "(real list \<Rightarrow> real list option) \<Rightarrow> audio \<Rightarrow> channel \<Rightarrow> nat \<Rightarrow> uint \<Rightarrow> channel option" where
  "extract_frequencies fft wav st off wsize =
     (case window_threshold fft wav st off wsize of
        Fault \<Rightarrow> None
      | Return \<Rightarrow> Some st
      | Go (pwr, threshold) \<Rightarrow>
          if threshold < POWER_NOISE_LEVEL then Some st
          else
            let st1 = (if threshold > max_thresh st then st\<lparr>max_thresh := threshold\<rparr> else st) in
            (case find_peaks wav wsize pwr threshold
                    [first_bin wav wsize..<unat wsize div 2] (False, 0, 0) (detected st1) of
               None \<Rightarrow> None
             | Some l \<Rightarrow> Some (st1\<lparr>detected := l\<rparr>)))"

text \<open>
  The transform of two samples, in the packed layout of the library: the two real
  coefficients \<open>a + b\<close> and \<open>a - b\<close>.  It stands for \<open>fft\<close> where a concrete transform is
  needed.
\<close>

definition fft2 :: "real list \<Rightarrow> real list option" where
  "fft2 xs = (case xs of [a, b] \<Rightarrow> Some [a + b, a - b] | _ \<Rightarrow> None)"

section \<open>The quantizer of the generator (wav-generator.c)\<close>

text \<open>
  The conversion of a \<^verbatim>\<open>double\<close> to an integer type in C discards the fractional part;
  it has no defined behaviour when the result is outside the type.  \<open>bits\<close> is the width
  of the signed integer type.
\<close>

definition INT16_MAX :: real where "INT16_MAX = 32767"

definition INT32_MAX :: real where "INT32_MAX = 2147483647"

definition c_trunc :: "real \<Rightarrow> int" where
  "c_trunc x = (if 0 \<le> x then \<lfloor>x\<rfloor> else \<lceil>x\<rceil>)"

definition double_to_int :: "nat \<Rightarrow> real \<Rightarrow> int option" where
  "double_to_int bits x =
     (if - (2 ^ (bits - 1)) \<le> c_trunc x \<and> c_trunc x < 2 ^ (bits - 1) then Some (c_trunc x)
      else None)"

text \<open>
  The buffer is the list of its samples, the interleaved array that \<^verbatim>\<open>buf_i16\<close> or
  \<^verbatim>\<open>buf_i32\<close> addresses, each sample with its integer value.  The multiplication of two
  doubles is the parameter \<open>fmul\<close>, on the reals that the doubles denote.  The inner loop,
  over the channel \<open>c\<close>, stores at \<^verbatim>\<open>(s * wav->channels) + c\<close>, an unsigned expression.
\<close>

function fill_frame ::
  "(real \<Rightarrow> real \<Rightarrow> real) \<Rightarrow> audio \<Rightarrow> nat \<Rightarrow> real \<Rightarrow> real list list \<Rightarrow> uint \<Rightarrow> uint
     \<Rightarrow> int list \<Rightarrow> int list option" where
  "fill_frame fmul wav bits scale waves s c buf =
     (if c < channels wav then
        (case rd waves (unat c) of
           None \<Rightarrow> None
         | Some w \<Rightarrow>
             (case rd w (unat s) of
                None \<Rightarrow> None
              | Some x \<Rightarrow>
                  (case double_to_int bits (fmul x scale) of
                     None \<Rightarrow> None
                   | Some v \<Rightarrow>
                       (case wr buf (unat (s * channels wav + c)) v of
                          None \<Rightarrow> None
                        | Some buf' \<Rightarrow> fill_frame fmul wav bits scale waves s (c + 1) buf'))))
      else Some buf)"
  by pat_completeness auto
termination
proof (relation "measure (\<lambda>(fmul, wav, bits, scale, waves, s, c, buf). unat (channels wav) - unat c)")
  show "wf (measure (\<lambda>(fmul, wav, bits, scale, waves, s, c, buf). unat (channels wav) - unat c))"
    by simp
next
  fix fmul :: "real \<Rightarrow> real \<Rightarrow> real" and wav :: audio and bits :: nat and scale :: real
    and waves :: "real list list" and s c :: uint and buf x2c :: "int list"
  assume "c < channels wav"
  then have lt: "unat c < unat (channels wav)" by (simp add: word_less_nat_alt)
  have "unat (channels wav) < 2 ^ 32"
    using unsigned_less [of "channels wav", where 'a=nat] by simp
  with lt have "unat (c + 1) = unat c + 1" by (simp add: unat_word_ariths)
  with lt show "((fmul, wav, bits, scale, waves, s, c + 1, x2c),
        fmul, wav, bits, scale, waves, s, c, buf)
      \<in> measure (\<lambda>(fmul, wav, bits, scale, waves, s, c, buf). unat (channels wav) - unat c)"
    by simp
qed

declare fill_frame.simps [simp del]

text \<open>The outer loop, over the sample \<open>s\<close>.\<close>

function fill_frames ::
  "(real \<Rightarrow> real \<Rightarrow> real) \<Rightarrow> audio \<Rightarrow> nat \<Rightarrow> real \<Rightarrow> real list list \<Rightarrow> uint
     \<Rightarrow> int list \<Rightarrow> int list option" where
  "fill_frames fmul wav bits scale waves s buf =
     (if s < samples_per_chan wav then
        (case fill_frame fmul wav bits scale waves s 0 buf of
           None \<Rightarrow> None
         | Some buf' \<Rightarrow> fill_frames fmul wav bits scale waves (s + 1) buf')
      else Some buf)"
  by pat_completeness auto
termination
proof (relation "measure (\<lambda>(fmul, wav, bits, scale, waves, s, buf).
    unat (samples_per_chan wav) - unat s)")
  show "wf (measure (\<lambda>(fmul, wav, bits, scale, waves, s, buf).
      unat (samples_per_chan wav) - unat s))"
    by simp
next
  fix fmul :: "real \<Rightarrow> real \<Rightarrow> real" and wav :: audio and bits :: nat and scale :: real
    and waves :: "real list list" and s :: uint and buf x2 :: "int list"
  assume "s < samples_per_chan wav"
  then have lt: "unat s < unat (samples_per_chan wav)" by (simp add: word_less_nat_alt)
  have "unat (samples_per_chan wav) < 2 ^ 32"
    using unsigned_less [of "samples_per_chan wav", where 'a=nat] by simp
  with lt have "unat (s + 1) = unat s + 1" by (simp add: unat_word_ariths)
  with lt show "((fmul, wav, bits, scale, waves, s + 1, x2), fmul, wav, bits, scale, waves, s, buf)
      \<in> measure (\<lambda>(fmul, wav, bits, scale, waves, s, buf). unat (samples_per_chan wav) - unat s)"
    by simp
qed

declare fill_frames.simps [simp del]

definition fill_audio_buf ::
  "(real \<Rightarrow> real \<Rightarrow> real) \<Rightarrow> int list \<Rightarrow> real list list \<Rightarrow> audio \<Rightarrow> int list option" where
  "fill_audio_buf fmul buf waves wav =
     (if bits_per_sample wav = 16 then fill_frames fmul wav 16 INT16_MAX waves 0 buf
      else if bits_per_sample wav = 32 then fill_frames fmul wav 32 INT32_MAX waves 0 buf
      else Some buf)"

text \<open>
  The full scale in the words of the specification: 32767 for 16 bits and \<open>2^31 - 1\<close>
  for 32 bits.
\<close>

definition spec_full_scale :: "audio \<Rightarrow> real" where
  "spec_full_scale wav = (if bits_per_sample wav = 16 then 32767 else 2 ^ 31 - 1)"

text \<open>Descriptors of one sample on one channel, and of two samples on two channels.\<close>

text \<open>
  The multiplication without rounding.  It is the multiplication of two doubles wherever
  the product of their values is the value of a double, as it is for the samples
  \<open>1/4\<close>, \<open>-1/4\<close>, \<open>1\<close> and \<open>-1\<close> and either full scale.
\<close>

definition exact_mul :: "real \<Rightarrow> real \<Rightarrow> real" where
  "exact_mul x y = x * y"

definition wav_mono16 :: audio where
  "wav_mono16 = \<lparr>channels = 1, sample_rate = 48000, bits_per_sample = 16,
     duration_s = 0, freqs_per_chan = 1, samples_per_chan = 1\<rparr>"

definition wav_mono32 :: audio where
  "wav_mono32 = \<lparr>channels = 1, sample_rate = 48000, bits_per_sample = 32,
     duration_s = 0, freqs_per_chan = 1, samples_per_chan = 1\<rparr>"

definition wav_stereo16 :: audio where
  "wav_stereo16 = \<lparr>channels = 2, sample_rate = 48000, bits_per_sample = 16,
     duration_s = 0, freqs_per_chan = 1, samples_per_chan = 2\<rparr>"

section \<open>Invariants\<close>

text \<open>The list of a channel has its 64 allocated entries and a count below 64.\<close>

definition list_inv :: "freq_list \<Rightarrow> bool" where
  "list_inv l = (length (cfreqs l) = 64 \<and> unat (ncfreqs l) \<le> 63)"

section \<open>Properties of the detected-frequency list\<close>

lemma unat_succ_lt64: "unat (i::uint) < 64 \<Longrightarrow> unat (i + 1) = unat i + 1"
  by (simp add: unat_word_ariths)

lemma freq_is_listed_from_total:
  "length fs = 64 \<Longrightarrow> \<exists>b. freq_is_listed_from fs n f i = Some b"
proof (induction fs n f i rule: freq_is_listed_from.induct)
  case (1 freqs nfreqs frequency i)
  show ?case
  proof (cases "i < MAX_FREQS_PER_CHAN")
    case False
    then show ?thesis by (subst freq_is_listed_from.simps) auto
  next
    case True
    then have lt: "unat i < 64" by (simp add: word_less_nat_alt)
    with "1.prems" have r: "rd freqs (unat i) = Some (freqs ! unat i)"
      by (simp add: rd_def)
    show ?thesis
    proof (cases "i = nfreqs \<or> freqs_are_equal frequency (freqs ! unat i) FREQ_ACCURACY")
      case True
      with \<open>i < MAX_FREQS_PER_CHAN\<close> r show ?thesis
        by (subst freq_is_listed_from.simps) auto
    next
      case False
      with "1.IH" [OF \<open>i < MAX_FREQS_PER_CHAN\<close> _ r] "1.prems"
      obtain b where "freq_is_listed_from freqs nfreqs frequency (i + 1) = Some b"
        by auto
      with False \<open>i < MAX_FREQS_PER_CHAN\<close> r show ?thesis
        by (subst freq_is_listed_from.simps) auto
    qed
  qed
qed

lemma add_freq_to_list_inv:
  assumes "list_inv l"
  shows "\<exists>l'. add_freq_to_list l f = Some l' \<and> list_inv l'"
proof -
  from assms have len: "length (cfreqs l) = 64" and n: "unat (ncfreqs l) \<le> 63"
    by (simp_all add: list_inv_def)
  have n1: "unat (ncfreqs l + 1) = unat (ncfreqs l) + 1"
    using n by (simp add: unat_succ_lt64)
  show ?thesis
  proof (cases "ncfreqs l + 1 \<ge> MAX_FREQS_PER_CHAN")
    case True
    then show ?thesis using assms by (simp add: add_freq_to_list_def list_inv_def)
  next
    case False
    then have "unat (ncfreqs l + 1) < 64" by (simp add: word_le_nat_alt)
    with n1 have small: "unat (ncfreqs l) < 63" by simp
    obtain b where b: "freq_is_listed (cfreqs l) (ncfreqs l) f = Some b"
      using freq_is_listed_from_total [OF len, of "ncfreqs l" f 0]
      unfolding freq_is_listed_def by blast
    show ?thesis
    proof (cases b)
      case True
      with b False assms show ?thesis by (simp add: add_freq_to_list_def)
    next
      case nb: False
      from small len have "wr (cfreqs l) (unat (ncfreqs l)) f
          = Some ((cfreqs l)[unat (ncfreqs l) := f])"
        by (simp add: wr_def)
      with b nb False n1 small len show ?thesis
        by (simp add: add_freq_to_list_def list_inv_def)
    qed
  qed
qed

lemma add_freqs_inv:
  "list_inv l \<Longrightarrow> \<exists>l'. add_freqs l fs = Some l' \<and> list_inv l'"
proof (induction fs arbitrary: l)
  case Nil
  then show ?case by simp
next
  case (Cons f fs)
  from add_freq_to_list_inv [OF Cons.prems, of f]
  obtain l1 where "add_freq_to_list l f = Some l1" "list_inv l1" by blast
  with Cons.IH [of l1] show ?case by simp
qed

lemma list_inv_empty: "list_inv empty_freq_list"
  by (simp add: list_inv_def empty_freq_list_def)

lemma add_freq_to_list_full:
  "ncfreqs l = 63 \<Longrightarrow>
     add_freq_to_list l f =
       Some (l\<lparr>diag := diag l @ [''Maximum number of detected frequencies reached'']\<rparr>)"
  by (simp add: add_freq_to_list_def)

text \<open>
  C10.  Whatever frequencies are added to the list of a channel, starting from the empty
  list that \<^verbatim>\<open>main\<close> allocates, every call returns and the count stays at most
  \<open>MAX_FREQS_PER_CHAN - 1 = 63\<close>, so it never reaches the 64 entries of the array.  A call
  on a list that holds 63 entries stores nothing: it returns with the array and the count
  as they were, and has only printed the diagnostic.
\<close>

theorem add_freq_to_list_capacity:
  "(\<exists>l. add_freqs empty_freq_list fs = Some l
      \<and> unat (ncfreqs l) \<le> unat MAX_FREQS_PER_CHAN - 1
      \<and> unat (ncfreqs l) < unat MAX_FREQS_PER_CHAN)
   \<and> (unat (ncfreqs l0) = 63 \<longrightarrow>
        add_freq_to_list l0 f =
          Some (l0\<lparr>diag := diag l0 @ [''Maximum number of detected frequencies reached'']\<rparr>))"
proof -
  from add_freqs_inv [OF list_inv_empty, of fs]
  obtain l where l: "add_freqs empty_freq_list fs = Some l" "list_inv l" by blast
  from l(2) have "unat (ncfreqs l) \<le> 63" by (simp add: list_inv_def)
  with l(1) have A: "\<exists>l. add_freqs empty_freq_list fs = Some l
      \<and> unat (ncfreqs l) \<le> unat MAX_FREQS_PER_CHAN - 1
      \<and> unat (ncfreqs l) < unat MAX_FREQS_PER_CHAN"
    by simp
  have B: "unat (ncfreqs l0) = 63 \<longrightarrow>
        add_freq_to_list l0 f =
          Some (l0\<lparr>diag := diag l0 @ [''Maximum number of detected frequencies reached'']\<rparr>)"
  proof
    assume "unat (ncfreqs l0) = 63"
    then have "of_nat (unat (ncfreqs l0)) = (of_nat 63 :: uint)" by simp
    then have "ncfreqs l0 = 63" by simp
    then show "add_freq_to_list l0 f =
          Some (l0\<lparr>diag := diag l0 @ [''Maximum number of detected frequencies reached'']\<rparr>)"
      by (rule add_freq_to_list_full)
  qed
  from A B show ?thesis by (rule conjI)
qed

theorem add_freq_to_list_capacity_witness:
  "(\<exists>l. add_freqs empty_freq_list [200, 6150, 200] = Some l \<and> unat (ncfreqs l) < 64)
   \<and> unat (ncfreqs \<lparr>cfreqs = map (\<lambda>k. 200 + 3 * of_nat k) [0..<63] @ [0],
                      ncfreqs = 63, diag = []\<rparr>) = 63
   \<and> add_freq_to_list \<lparr>cfreqs = map (\<lambda>k. 200 + 3 * of_nat k) [0..<63] @ [0],
                        ncfreqs = 63, diag = []\<rparr> 6150 =
       Some \<lparr>cfreqs = map (\<lambda>k. 200 + 3 * of_nat k) [0..<63] @ [0], ncfreqs = 63,
             diag = [''Maximum number of detected frequencies reached'']\<rparr>"
  using add_freq_to_list_capacity
    [of "[200, 6150, 200]"
        "\<lparr>cfreqs = map (\<lambda>k. 200 + 3 * of_nat k) [0..<63] @ [0], ncfreqs = 63, diag = []\<rparr>"
        6150]
  by (auto simp del: add_freqs.simps upt_Suc map_append)

section \<open>Properties of the frequency planner\<close>

subsection \<open>The loops\<close>

lemma unat_succ_lt: "(i::uint) < n \<Longrightarrow> unat (i + 1) = unat i + 1"
proof -
  assume "i < n"
  then have "unat i < unat n" by (simp add: word_less_nat_alt)
  moreover have "unat n < 2 ^ 32" using unsigned_less [of n, where 'a=nat] by simp
  ultimately show ?thesis by (simp add: unat_word_ariths)
qed

lemma succ_le_lt: "(i::uint) < n \<Longrightarrow> i + 1 \<le> n"
  using unat_succ_lt [of i n] by (simp add: word_le_nat_alt word_less_nat_alt)

lemma take_Suc_update: "k < length xs \<Longrightarrow> take (Suc k) (xs[k := v]) = take k xs @ [v]"
  by (simp add: take_Suc_conv_app_nth)

lemma fill_chan_eq:
  assumes "unat c < length freqs"
    and "length (freqs ! unat c) = unat (freqs_per_chan wav)"
    and "i \<le> freqs_per_chan wav"
  shows "fill_chan wav df dc c i freqs =
     Some (freqs[unat c := take (unat i) (freqs ! unat c) @
        map (\<lambda>k. (MIN_FREQ + of_nat k * df) + c * dc) [unat i..<unat (freqs_per_chan wav)] ])"
  using assms
proof (induction wav df dc c i freqs rule: fill_chan.induct)
  case (1 wav df dc c i freqs)
  let ?n = "unat (freqs_per_chan wav)"
  let ?row = "freqs ! unat c"
  let ?f = "\<lambda>k. (MIN_FREQ + of_nat k * df) + c * dc"
  show ?case
  proof (cases "i < freqs_per_chan wav")
    case False
    with "1.prems"(3) have "i = freqs_per_chan wav" by simp
    with "1.prems" show ?thesis
      by (subst fill_chan.simps) simp
  next
    case True
    then have lt: "unat i < ?n" by (simp add: word_less_nat_alt)
    have r: "rd freqs (unat c) = Some ?row"
      using "1.prems"(1) by (simp add: rd_def)
    let ?v = "(MIN_FREQ + i * df) + c * dc"
    have w: "wr ?row (unat i) ?v = Some (?row[unat i := ?v])"
      using lt "1.prems"(2) by (simp add: wr_def)
    let ?freqs1 = "freqs[unat c := ?row[unat i := ?v] ]"
    have ih: "fill_chan wav df dc c (i + 1) ?freqs1 =
        Some (?freqs1[unat c := take (unat (i + 1)) (?freqs1 ! unat c) @
          map ?f [unat (i + 1)..<?n] ])"
      using "1.prems" succ_le_lt [OF True]
      by (intro "1.IH" [OF True r w]) simp_all
    have s: "unat (i + 1) = Suc (unat i)" using unat_succ_lt [OF True] by simp
    have v: "?f (unat i) = ?v" by simp
    have "take (unat (i + 1)) (?freqs1 ! unat c) @ map ?f [unat (i + 1)..<?n]
        = take (unat i) ?row @ map ?f [unat i..<?n]"
      using lt "1.prems"(1,2) v
      by (simp add: s take_Suc_update upt_conv_Cons)
    with ih have "fill_chan wav df dc c (i + 1) ?freqs1 =
        Some (freqs[unat c := take (unat i) ?row @ map ?f [unat i..<?n] ])"
      by simp
    with True r w show ?thesis
      by (subst fill_chan.simps) simp
  qed
qed

lemma fill_chans_eq:
  assumes "length freqs = unat (channels wav)"
    and "\<forall>k. unat c \<le> k \<and> k < unat (channels wav)
           \<longrightarrow> length (freqs ! k) = unat (freqs_per_chan wav)"
    and "c \<le> channels wav"
  shows "fill_chans wav df dc c freqs =
     Some (take (unat c) freqs @
        map (\<lambda>j. map (\<lambda>k. (MIN_FREQ + of_nat k * df) + of_nat j * dc)
                   [0..<unat (freqs_per_chan wav)])
          [unat c..<unat (channels wav)])"
  using assms
proof (induction wav df dc c freqs rule: fill_chans.induct)
  case (1 wav df dc c freqs)
  let ?n = "unat (freqs_per_chan wav)"
  let ?ch = "unat (channels wav)"
  let ?g = "\<lambda>j. map (\<lambda>k. (MIN_FREQ + of_nat k * df) + of_nat j * dc) [0..<?n]"
  show ?case
  proof (cases "c < channels wav")
    case False
    with "1.prems"(3) have "c = channels wav" by simp
    with "1.prems" show ?thesis
      by (subst fill_chans.simps) simp
  next
    case True
    then have lt: "unat c < ?ch" by (simp add: word_less_nat_alt)
    let ?freqs1 = "freqs[unat c := ?g (unat c)]"
    have fc: "fill_chan wav df dc c 0 freqs = Some ?freqs1"
      using fill_chan_eq [of c freqs wav 0 df dc] lt "1.prems"(1,2) by simp
    have s: "unat (c + 1) = Suc (unat c)" using unat_succ_lt [OF True] by simp
    have ih: "fill_chans wav df dc (c + 1) ?freqs1 =
        Some (take (unat (c + 1)) ?freqs1 @ map ?g [unat (c + 1)..<?ch])"
      using "1.prems" succ_le_lt [OF True] s
      by (intro "1.IH" [OF True fc]) simp_all
    have "take (unat (c + 1)) ?freqs1 @ map ?g [unat (c + 1)..<?ch]
        = take (unat c) freqs @ map ?g [unat c..<?ch]"
      using lt "1.prems"(1) by (simp add: s take_Suc_update upt_conv_Cons)
    with ih fc True show ?thesis
      by (subst fill_chans.simps) simp
  qed
qed

lemma fill_chans_allocated:
  assumes "length freqs = unat (channels wav)"
    and "\<forall>row \<in> set freqs. length row = unat (freqs_per_chan wav)"
  shows "fill_chans wav df dc 0 freqs =
     Some (map (\<lambda>j. map (\<lambda>k. (MIN_FREQ + of_nat k * df) + of_nat j * dc)
                   [0..<unat (freqs_per_chan wav)])
          [0..<unat (channels wav)])"
  using fill_chans_eq [of freqs wav 0 df dc] assms by simp

subsection \<open>The arithmetic does not wrap\<close>

lemma unat_lt_2p32: "unat (w::uint) < 4294967296"
  using unsigned_less [of w, where 'a=nat] by simp

lemma plan_below_band:
  fixes B n ch i c :: nat
  assumes "0 < B div n div (ch + 1)" "i < n" "c < ch"
  shows "i * (B div n) + c * (B div n div (ch + 1)) < B"
proof -
  let ?DF = "B div n" and ?DC = "B div n div (ch + 1)"
  have 1: "n * ?DF \<le> B" by (rule times_div_less_eq_dividend)
  have 2: "(ch + 1) * ?DC \<le> ?DF" by (rule times_div_less_eq_dividend)
  from \<open>c < ch\<close> have "c + 2 \<le> ch + 1" by simp
  then have "(c + 2) * ?DC \<le> (ch + 1) * ?DC" by (rule mult_le_mono1)
  moreover have "(c + 2) * ?DC = c * ?DC + 2 * ?DC" by (simp add: algebra_simps)
  ultimately have "c * ?DC + 2 * ?DC \<le> ?DF" using 2 by linarith
  with assms(1) have 3: "c * ?DC < ?DF" by linarith
  from \<open>i < n\<close> have "i + 1 \<le> n" by simp
  then have "(i + 1) * ?DF \<le> n * ?DF" by (rule mult_le_mono1)
  moreover have "(i + 1) * ?DF = i * ?DF + ?DF" by (simp add: algebra_simps)
  ultimately have "i * ?DF + ?DF \<le> B" using 1 by linarith
  with 3 show ?thesis by linarith
qed

lemma unat_delta_f:
  assumes "200 \<le> unat (sample_rate wav) div 2"
  shows "unat (delta_f wav)
     = spec_delta_f (unat (sample_rate wav)) (unat (freqs_per_chan wav))"
proof -
  have a: "unat (sample_rate wav div 2) = unat (sample_rate wav) div 2"
    by (simp add: unat_div)
  with assms have "MIN_FREQ \<le> sample_rate wav div 2"
    by (simp add: word_le_nat_alt)
  then have "unat (sample_rate wav div 2 - MIN_FREQ) = unat (sample_rate wav div 2) - unat MIN_FREQ"
    by (rule unat_sub)
  with a show ?thesis
    by (simp add: delta_f_def spec_delta_f_def unat_div)
qed

lemma unat_delta_c:
  assumes "200 \<le> unat (sample_rate wav) div 2" "channels wav + 1 \<noteq> 0"
  shows "unat (delta_c wav)
     = spec_delta_c (unat (channels wav)) (unat (sample_rate wav)) (unat (freqs_per_chan wav))"
proof -
  from assms(2) have "1 + channels wav \<noteq> 0" by (simp add: add.commute)
  then have "unat (1 + channels wav) = Suc (unat (channels wav))" by (rule unatSuc)
  then have "unat (channels wav + 1) = unat (channels wav) + 1" by (simp add: add.commute)
  then show ?thesis
    using unat_delta_f [OF assms(1)]
    by (simp add: delta_c_def spec_delta_c_def unat_div)
qed

lemma unat_planned:
  fixes df dc :: uint
  assumes "200 + k * unat df + j * unat dc < 4294967296"
  shows "unat ((MIN_FREQ + of_nat k * df) + of_nat j * dc) = 200 + k * unat df + j * unat dc"
proof (cases "df = 0 \<or> dc = 0")
  case False
  then have pos: "0 < unat df" "0 < unat dc" by (simp_all add: unat_gt_0)
  from pos(1) have "k \<le> k * unat df" by simp
  with assms have k: "k < 4294967296" by linarith
  from pos(2) have "j \<le> j * unat dc" by simp
  with assms have j: "j < 4294967296" by linarith
  have uk: "unat (of_nat k :: uint) = k" using k by (simp add: unat_of_nat)
  have uj: "unat (of_nat j :: uint) = j" using j by (simp add: unat_of_nat)
  have kd: "unat (of_nat k * df) = k * unat df"
    using assms uk by (simp add: unat_word_ariths)
  have jd: "unat (of_nat j * dc) = j * unat dc"
    using assms uj by (simp add: unat_word_ariths)
  have a: "unat (MIN_FREQ + of_nat k * df) = 200 + k * unat df"
    using assms kd by (simp add: unat_word_ariths)
  show ?thesis using assms a jd by (simp add: unat_word_ariths)
next
  case True
  then show ?thesis
  proof
    assume z: "df = 0"
    show ?thesis
    proof (cases "dc = 0")
      case True with z show ?thesis by simp
    next
      case False
      then have "0 < unat dc" by (simp add: unat_gt_0)
      then have "j \<le> j * unat dc" by simp
      with assms have j: "j < 4294967296" by linarith
      have uj: "unat (of_nat j :: uint) = j" using j by (simp add: unat_of_nat)
      have jd: "unat (of_nat j * dc) = j * unat dc"
        using assms uj by (simp add: unat_word_ariths)
      show ?thesis using assms z jd by (simp add: unat_word_ariths)
    qed
  next
    assume z: "dc = 0"
    show ?thesis
    proof (cases "df = 0")
      case True with z show ?thesis by simp
    next
      case False
      then have "0 < unat df" by (simp add: unat_gt_0)
      then have "k \<le> k * unat df" by simp
      with assms have k: "k < 4294967296" by linarith
      have uk: "unat (of_nat k :: uint) = k" using k by (simp add: unat_of_nat)
      have kd: "unat (of_nat k * df) = k * unat df"
        using assms uk by (simp add: unat_word_ariths)
      show ?thesis using assms z kd by (simp add: unat_word_ariths)
    qed
  qed
qed

lemma sufficient_band:
  assumes "200 < unat (sample_rate wav) div 2"
    and "spec_delta_c (unat (channels wav)) (unat (sample_rate wav)) (unat (freqs_per_chan wav)) \<noteq> 0"
  shows "freqs_per_chan wav \<noteq> 0" "channels wav + 1 \<noteq> 0"
    "delta_f wav \<noteq> 0" "delta_c wav \<noteq> 0"
proof -
  let ?sr = "unat (sample_rate wav)" and ?n = "unat (freqs_per_chan wav)"
    and ?ch = "unat (channels wav)"
  from assms(2) have dc: "0 < (?sr div 2 - 200) div ?n div (?ch + 1)"
    by (simp add: spec_delta_c_def spec_delta_f_def)
  then have df: "0 < (?sr div 2 - 200) div ?n"
    by (metis div_0 gr0I)
  then have "0 < ?n" by (metis div_by_0 gr0I less_irrefl)
  then show n0: "freqs_per_chan wav \<noteq> 0" by (simp add: unat_gt_0)
  have "(?sr div 2 - 200) div ?n \<le> ?sr" 
    by (meson div_le_dividend diff_le_self le_trans)
  then have small: "(?sr div 2 - 200) div ?n < 4294967296"
    using unat_lt_2p32 [of "sample_rate wav"] by linarith
  show c1: "channels wav + 1 \<noteq> 0"
  proof
    assume z: "channels wav + 1 = 0"
    then have "channels wav = - 1" by (simp add: eq_neg_iff_add_eq_0)
    then have "?ch = unat (- 1 :: uint)" by simp
    also have "\<dots> = 4294967295" by (simp add: unsigned_minus_1_eq_mask mask_eq_exp_minus_1)
    finally have "?ch = 4294967295" .
    with small have "(?sr div 2 - 200) div ?n div (?ch + 1) = 0" by simp
    with dc show False by simp
  qed
  from assms(1) have le: "200 \<le> ?sr div 2" by simp
  from df show "delta_f wav \<noteq> 0"
    using unat_delta_f [OF le] by (auto simp: spec_delta_f_def)
  from dc show "delta_c wav \<noteq> 0"
    using unat_delta_c [OF le c1] by (auto simp: spec_delta_c_def spec_delta_f_def)
qed

lemma planned_nth:
  assumes "200 < unat (sample_rate wav) div 2"
    and "spec_delta_c (unat (channels wav)) (unat (sample_rate wav)) (unat (freqs_per_chan wav)) \<noteq> 0"
    and "c < unat (channels wav)" "i < unat (freqs_per_chan wav)"
  shows "unat (planned wav ! c ! i)
      = spec_frequency (unat (channels wav)) (unat (sample_rate wav))
          (unat (freqs_per_chan wav)) c i"
    and "spec_frequency (unat (channels wav)) (unat (sample_rate wav))
          (unat (freqs_per_chan wav)) c i < unat (sample_rate wav) div 2"
proof -
  let ?sr = "unat (sample_rate wav)" and ?n = "unat (freqs_per_chan wav)"
    and ?ch = "unat (channels wav)"
  let ?B = "?sr div 2 - 200"
  from assms(1) have le: "200 \<le> ?sr div 2" by simp
  note sb = sufficient_band [OF assms(1,2)]
  have df: "unat (delta_f wav) = ?B div ?n"
    using unat_delta_f [OF le] by (simp add: spec_delta_f_def)
  have dc: "unat (delta_c wav) = ?B div ?n div (?ch + 1)"
    using unat_delta_c [OF le sb(2)] by (simp add: spec_delta_c_def spec_delta_f_def)
  from assms(2) have "0 < ?B div ?n div (?ch + 1)"
    by (simp add: spec_delta_c_def spec_delta_f_def)
  from plan_below_band [OF this assms(4,3)]
  have b: "i * (?B div ?n) + c * (?B div ?n div (?ch + 1)) < ?B" .
  with le have "200 + i * (?B div ?n) + c * (?B div ?n div (?ch + 1)) < ?sr div 2"
    by linarith
  then show 2: "spec_frequency ?ch ?sr ?n c i < ?sr div 2"
    by (simp add: spec_frequency_def spec_delta_c_def spec_delta_f_def)
  have "?sr div 2 < 4294967296" using unat_lt_2p32 [of "sample_rate wav"] by linarith
  with b le have "200 + i * (?B div ?n) + c * (?B div ?n div (?ch + 1)) < 4294967296"
    by linarith
  then have "200 + i * unat (delta_f wav) + c * unat (delta_c wav) < 4294967296"
    by (simp only: df dc)
  from unat_planned [OF this] assms(3,4)
  show "unat (planned wav ! c ! i) = spec_frequency ?ch ?sr ?n c i"
    by (simp add: planned_def spec_frequency_def spec_delta_c_def spec_delta_f_def df dc)
qed

lemma planned_is_returned:
  assumes "200 < unat (sample_rate wav) div 2"
    and "spec_delta_c (unat (channels wav)) (unat (sample_rate wav)) (unat (freqs_per_chan wav)) \<noteq> 0"
    and "length freqs = unat (channels wav)"
    and "\<forall>row \<in> set freqs. length row = unat (freqs_per_chan wav)"
  shows "fill_desired_freqs freqs wav = Some (0, planned wav, [])"
  using sufficient_band [OF assms(1,2)] fill_chans_allocated [OF assms(3,4)]
  by (simp add: fill_desired_freqs_def planned_def)

subsection \<open>The plan\<close>

text \<open>
  C1.  For at least one channel and one tone, a band above \<open>MIN_FREQ\<close>
  (\<open>sample_rate/2 > MIN_FREQ\<close>) and both spacings nonzero, \<^verbatim>\<open>fill_desired_freqs\<close>
  called on the matrix that \<^verbatim>\<open>alloc_matrix\<close> gives returns 0 and has stored, for every
  channel \<open>c\<close> and tone \<open>i\<close>, the frequency \<open>MIN_FREQ + i*delta_f + c*delta_c\<close> (no
  unsigned operation wraps).  Every channel has its \<open>tones_per_channel\<close> entries, strictly
  ascending and distinct, all in \<open>[MIN_FREQ, sample_rate/2)\<close>, and two distinct channels
  never have the same set of frequencies.
\<close>

theorem fill_desired_freqs_plan:
  assumes "1 \<le> unat (channels wav)" and "1 \<le> unat (freqs_per_chan wav)"
    and "unat MIN_FREQ < unat (sample_rate wav) div 2"
    and "spec_delta_f (unat (sample_rate wav)) (unat (freqs_per_chan wav)) \<noteq> 0"
    and "spec_delta_c (unat (channels wav)) (unat (sample_rate wav))
           (unat (freqs_per_chan wav)) \<noteq> 0"
    and "length freqs = unat (channels wav)"
    and "\<forall>row \<in> set freqs. length row = unat (freqs_per_chan wav)"
  shows "\<exists>freqs'. fill_desired_freqs freqs wav = Some (0, freqs', [])
     \<and> length freqs' = unat (channels wav)
     \<and> (\<forall>c < unat (channels wav).
          length (freqs' ! c) = unat (freqs_per_chan wav)
          \<and> (\<forall>i < unat (freqs_per_chan wav).
                unat (freqs' ! c ! i)
                  = spec_frequency (unat (channels wav)) (unat (sample_rate wav))
                      (unat (freqs_per_chan wav)) c i
                \<and> unat MIN_FREQ \<le> unat (freqs' ! c ! i)
                \<and> unat (freqs' ! c ! i) < unat (sample_rate wav) div 2)
          \<and> sorted_wrt (<) (freqs' ! c) \<and> distinct (freqs' ! c))
     \<and> (\<forall>c1 < unat (channels wav). \<forall>c2 < unat (channels wav).
          c1 \<noteq> c2 \<longrightarrow> set (freqs' ! c1) \<noteq> set (freqs' ! c2))"
proof -
  let ?sr = "unat (sample_rate wav)" and ?n = "unat (freqs_per_chan wav)"
    and ?ch = "unat (channels wav)"
  let ?DF = "spec_delta_f ?sr ?n" and ?DC = "spec_delta_c ?ch ?sr ?n"
  let ?P = "planned wav"
  from assms(3) have band: "200 < ?sr div 2" by simp
  have ret: "fill_desired_freqs freqs wav = Some (0, ?P, [])"
    by (rule planned_is_returned [OF band assms(5,6,7)])
  have len: "length ?P = ?ch" by (simp add: planned_def)
  have row: "length (?P ! c) = ?n" if "c < ?ch" for c
    using that by (simp add: planned_def)
  have val: "unat (?P ! c ! i) = spec_frequency ?ch ?sr ?n c i"
    and below: "unat (?P ! c ! i) < ?sr div 2"
    if "c < ?ch" "i < ?n" for c i
    using planned_nth [OF band assms(5) that] by simp_all
  have above: "unat MIN_FREQ \<le> unat (?P ! c ! i)" if "c < ?ch" "i < ?n" for c i
    using val [OF that] by (simp add: spec_frequency_def)
  have DF: "0 < ?DF" and DC: "0 < ?DC" using assms(4,5) by simp_all
  have asc: "sorted_wrt (<) (?P ! c)" if c: "c < ?ch" for c
    unfolding sorted_wrt_iff_nth_less
  proof (intro allI impI)
    fix i j assume ij: "i < j" "j < length (?P ! c)"
    then have j: "j < ?n" and i: "i < ?n" using row [OF c] by simp_all
    from ij(1) DF have "i * ?DF < j * ?DF" by simp
    then have "spec_frequency ?ch ?sr ?n c i < spec_frequency ?ch ?sr ?n c j"
      by (simp add: spec_frequency_def)
    then show "?P ! c ! i < ?P ! c ! j"
      using val [OF c i] val [OF c j] by (simp add: word_less_nat_alt)
  qed
  have dist: "distinct (?P ! c)" if c: "c < ?ch" for c
    using asc [OF c] by (simp add: strict_sorted_iff)
  have diff: "set (?P ! c1) \<noteq> set (?P ! c2)"
    if c1: "c1 < ?ch" and c2: "c2 < ?ch" and ne: "c1 \<noteq> c2" for c1 c2
  proof
    assume eq: "set (?P ! c1) = set (?P ! c2)"
    from assms(2) have n0: "0 < ?n" by simp
    have "?P ! c1 ! 0 \<in> set (?P ! c1)" using row [OF c1] n0 by simp
    with eq have "?P ! c1 ! 0 \<in> set (?P ! c2)" by simp
    then obtain i where "i < length (?P ! c2)" "?P ! c2 ! i = ?P ! c1 ! 0"
      unfolding in_set_conv_nth by blast
    then have i: "i < ?n" "?P ! c2 ! i = ?P ! c1 ! 0"
      using row [OF c2] by simp_all
    have "?P ! c2 ! 0 \<in> set (?P ! c2)" using row [OF c2] n0 by simp
    with eq have "?P ! c2 ! 0 \<in> set (?P ! c1)" by simp
    then obtain j where "j < length (?P ! c1)" "?P ! c1 ! j = ?P ! c2 ! 0"
      unfolding in_set_conv_nth by blast
    then have j: "j < ?n" "?P ! c1 ! j = ?P ! c2 ! 0"
      using row [OF c1] by simp_all
    from i(2) have "spec_frequency ?ch ?sr ?n c2 i = spec_frequency ?ch ?sr ?n c1 0"
      using val [OF c2 i(1)] val [OF c1 n0] by simp
    then have 1: "i * ?DF + c2 * ?DC = c1 * ?DC" by (simp add: spec_frequency_def)
    from j(2) have "spec_frequency ?ch ?sr ?n c1 j = spec_frequency ?ch ?sr ?n c2 0"
      using val [OF c1 j(1)] val [OF c2 n0] by simp
    then have 2: "j * ?DF + c1 * ?DC = c2 * ?DC" by (simp add: spec_frequency_def)
    from 1 2 have "c1 * ?DC = c2 * ?DC" by linarith
    with DC have "c1 = c2" by simp
    with ne show False by simp
  qed
  from ret len row val above below asc dist diff show ?thesis by blast
qed

theorem fill_desired_freqs_plan_witness:
  "1 \<le> unat (channels wav_default) \<and> 1 \<le> unat (freqs_per_chan wav_default)
   \<and> unat MIN_FREQ < unat (sample_rate wav_default) div 2
   \<and> spec_delta_f 48000 4 = 5950 \<and> spec_delta_c 2 48000 4 = 1983
   \<and> (\<exists>freqs'. fill_desired_freqs (replicate 2 (replicate 4 0)) wav_default = Some (0, freqs', [])
        \<and> length freqs' = 2
        \<and> (\<forall>c < 2. length (freqs' ! c) = 4
              \<and> (\<forall>i < 4. unat (freqs' ! c ! i) = spec_frequency 2 48000 4 c i
                    \<and> 200 \<le> unat (freqs' ! c ! i) \<and> unat (freqs' ! c ! i) < 24000)
              \<and> sorted_wrt (<) (freqs' ! c) \<and> distinct (freqs' ! c))
        \<and> (\<forall>c1 < 2. \<forall>c2 < 2. c1 \<noteq> c2 \<longrightarrow> set (freqs' ! c1) \<noteq> set (freqs' ! c2)))"
proof -
  have f: "spec_delta_f 48000 4 = 5950" by (simp add: spec_delta_f_def)
  have c: "spec_delta_c 2 48000 4 = 1983" by (simp add: spec_delta_c_def spec_delta_f_def)
  have "\<forall>row \<in> set (replicate 2 (replicate 4 (0::uint))). length row = unat (freqs_per_chan wav_default)"
    by (simp add: wav_default_def)
  from fill_desired_freqs_plan [of wav_default "replicate 2 (replicate 4 0)", OF _ _ _ _ _ _ this] f c
  show ?thesis by (simp add: wav_default_def)
qed

text \<open>
  C5 fails on the code.  The analyzer accepts a header of one channel at 100 Hz (it
  rejects only a sample rate of zero) and, asked for two expected frequencies, calls
  \<^verbatim>\<open>fill_desired_freqs\<close> on the descriptor decoded from it.  The band
  \<open>[MIN_FREQ, sample_rate/2)\<close> is empty and the spacing of the specification is zero, but
  the unsigned subtraction \<^verbatim>\<open>(wav->sample_rate / 2) - MIN_FREQ\<close> wraps around: both
  spacings of the code are large, the call returns 0 without a message and has stored
  200 Hz and 2147483773 Hz, both outside the band.  The same at 398 Hz, where the width
  of the band is \<open>-1\<close>: the call returns 0 and has stored 200 Hz and 2147483847 Hz.
  The generator refuses both sample rates before it plans (\<^verbatim>\<open>Invalid frequency\<close>).
\<close>

theorem fill_desired_freqs_below_band:
  "extract_audio_parameters
       \<lparr>format_tag = 1, hdr_channels = 1, samples_per_sec = 100, avg_bytes_per_sec = 400,
          block_align = 4, hdr_bits_per_sample = 32, chunk_size = 4000\<rparr>
       (wav_empty\<lparr>freqs_per_chan := 2\<rparr>) = (4000, wav_100hz, [])
   \<and> spec_delta_f (unat (sample_rate wav_100hz)) (unat (freqs_per_chan wav_100hz)) = 0
   \<and> delta_f wav_100hz = 2147483573 \<and> delta_c wav_100hz = 1073741786
   \<and> fill_desired_freqs [ [0, 0] ] wav_100hz = Some (0, [ [200, 2147483773] ], [])
   \<and> \<not> unat (2147483773 :: uint) < unat (sample_rate wav_100hz) div 2
   \<and> extract_audio_parameters
       \<lparr>format_tag = 1, hdr_channels = 1, samples_per_sec = 398, avg_bytes_per_sec = 1592,
          block_align = 4, hdr_bits_per_sample = 32, chunk_size = 15920\<rparr>
       (wav_empty\<lparr>freqs_per_chan := 2\<rparr>) = (15920, wav_398hz, [])
   \<and> spec_delta_f (unat (sample_rate wav_398hz)) (unat (freqs_per_chan wav_398hz)) = 0
   \<and> delta_f wav_398hz = 2147483647 \<and> delta_c wav_398hz = 1073741823
   \<and> fill_desired_freqs [ [0, 0] ] wav_398hz = Some (0, [ [200, 2147483847] ], [])
   \<and> \<not> unat (2147483847 :: uint) < unat (sample_rate wav_398hz) div 2
   \<and> generator_checks wav_100hz = Some ''Invalid frequency''
   \<and> generator_checks wav_398hz = Some ''Invalid frequency''"
proof -
  have h1: "extract_audio_parameters
       \<lparr>format_tag = 1, hdr_channels = 1, samples_per_sec = 100, avg_bytes_per_sec = 400,
          block_align = 4, hdr_bits_per_sample = 32, chunk_size = 4000\<rparr>
       (wav_empty\<lparr>freqs_per_chan := 2\<rparr>) = (4000, wav_100hz, [])"
    by (simp add: extract_audio_parameters_def wav_empty_def wav_100hz_def Let_def)
  have h2: "extract_audio_parameters
       \<lparr>format_tag = 1, hdr_channels = 1, samples_per_sec = 398, avg_bytes_per_sec = 1592,
          block_align = 4, hdr_bits_per_sample = 32, chunk_size = 15920\<rparr>
       (wav_empty\<lparr>freqs_per_chan := 2\<rparr>) = (15920, wav_398hz, [])"
    by (simp add: extract_audio_parameters_def wav_empty_def wav_398hz_def Let_def)
  have s: "spec_delta_f (unat (sample_rate wav_100hz)) (unat (freqs_per_chan wav_100hz)) = 0"
    "spec_delta_f (unat (sample_rate wav_398hz)) (unat (freqs_per_chan wav_398hz)) = 0"
    by (simp_all add: spec_delta_f_def wav_100hz_def wav_398hz_def)
  have d1: "delta_f wav_100hz = 2147483573" "delta_c wav_100hz = 1073741786"
    by (simp_all add: delta_c_def delta_f_def wav_100hz_def)
  have d2: "delta_f wav_398hz = 2147483647" "delta_c wav_398hz = 1073741823"
    by (simp_all add: delta_c_def delta_f_def wav_398hz_def)
  have f1: "fill_desired_freqs [ [0, 0] ] wav_100hz = Some (0, [ [200, 2147483773] ], [])"
    by code_simp
  have f2: "fill_desired_freqs [ [0, 0] ] wav_398hz = Some (0, [ [200, 2147483847] ], [])"
    by code_simp
  have o: "\<not> unat (2147483773 :: uint) < unat (sample_rate wav_100hz) div 2"
    "\<not> unat (2147483847 :: uint) < unat (sample_rate wav_398hz) div 2"
    by (simp_all add: wav_100hz_def wav_398hz_def)
  have g: "generator_checks wav_100hz = Some ''Invalid frequency''"
    "generator_checks wav_398hz = Some ''Invalid frequency''"
    by (simp_all add: generator_checks_def wav_100hz_def wav_398hz_def)
  from h1 h2 s d1 d2 f1 f2 o g show ?thesis by simp
qed

section \<open>Properties of the comparison\<close>

subsection \<open>The tolerance\<close>

lemma unat_plus_one: "unat (e + 1 :: uint) = (if unat e = 4294967295 then 0 else unat e + 1)"
  using unat_lt_2p32 [of e] by (simp add: unat_word_ariths)

lemma unat_minus_one_32: "unat (e - 1 :: uint) = (if unat e = 0 then 4294967295 else unat e - 1)"
proof (cases "e = 0")
  case True
  then show ?thesis by (simp add: unsigned_minus_1_eq_mask mask_eq_exp_minus_1)
next
  case False
  then have "1 \<le> e" by (simp add: word_le_nat_alt unat_gt_0 Suc_le_eq)
  then have "unat (e - 1) = unat e - unat (1::uint)" by (rule unat_sub)
  with False show ?thesis by (simp add: unat_eq_zero)
qed

lemma freqs_are_equal_within:
  "freqs_are_equal d e FREQ_ACCURACY \<Longrightarrow> spec_within_tolerance d e"
  using unat_lt_2p32 [of d]
  by (auto simp: freqs_are_equal_def spec_within_tolerance_def word_le_nat_alt
        unat_plus_one unat_minus_one_32 split: if_splits)

subsection \<open>The two loops\<close>

lemma freq_is_listed_from_unlisted:
  assumes "length fs = unat n" and "i \<le> n"
    and "\<forall>k < unat n. \<not> freqs_are_equal f (fs ! k) FREQ_ACCURACY"
  shows "freq_is_listed_from fs n f i = Some False"
  using assms
proof (induction fs n f i rule: freq_is_listed_from.induct)
  case (1 freqs nfreqs frequency i)
  show ?case
  proof (cases "i < MAX_FREQS_PER_CHAN \<and> i \<noteq> nfreqs")
    case False
    then show ?thesis by (subst freq_is_listed_from.simps) auto
  next
    case True
    with "1.prems"(2) have lt: "i < nfreqs" by (simp add: order.strict_iff_order)
    then have k: "unat i < unat nfreqs" by (simp add: word_less_nat_alt)
    with "1.prems"(1) have r: "rd freqs (unat i) = Some (freqs ! unat i)"
      by (simp add: rd_def)
    from k "1.prems"(3) have ne: "\<not> freqs_are_equal frequency (freqs ! unat i) FREQ_ACCURACY"
      by blast
    from True have a: "i < MAX_FREQS_PER_CHAN" and b: "i \<noteq> nfreqs" by simp_all
    have "freq_is_listed_from freqs nfreqs frequency (i + 1) = Some False"
      using "1.prems" succ_le_lt [OF lt]
      by (intro "1.IH" [OF a b r ne]) simp_all
    with a b r ne show ?thesis
      by (subst freq_is_listed_from.simps) simp
  qed
qed

lemma freq_is_listed_from_returns:
  assumes "length fs = unat n" and "i \<le> n"
  shows "\<exists>b. freq_is_listed_from fs n f i = Some b"
  using assms
proof (induction fs n f i rule: freq_is_listed_from.induct)
  case (1 freqs nfreqs frequency i)
  show ?case
  proof (cases "i < MAX_FREQS_PER_CHAN \<and> i \<noteq> nfreqs")
    case False
    then show ?thesis by (subst freq_is_listed_from.simps) auto
  next
    case True
    with "1.prems"(2) have lt: "i < nfreqs" by (simp add: order.strict_iff_order)
    then have k: "unat i < unat nfreqs" by (simp add: word_less_nat_alt)
    with "1.prems"(1) have r: "rd freqs (unat i) = Some (freqs ! unat i)"
      by (simp add: rd_def)
    from True have a: "i < MAX_FREQS_PER_CHAN" and b: "i \<noteq> nfreqs" by simp_all
    show ?thesis
    proof (cases "freqs_are_equal frequency (freqs ! unat i) FREQ_ACCURACY")
      case True
      with a b r show ?thesis by (subst freq_is_listed_from.simps) auto
    next
      case False
      have "\<exists>b. freq_is_listed_from freqs nfreqs frequency (i + 1) = Some b"
        using "1.prems" succ_le_lt [OF lt]
        by (intro "1.IH" [OF a b r False]) simp_all
      with a b r False show ?thesis
        by (subst freq_is_listed_from.simps) auto
    qed
  qed
qed

lemma report_spurious_lists:
  assumes "unat ncf \<le> length cf" and "length ef = unat (freqs_per_chan wav)" and "i \<le> ncf"
  shows "\<exists>out'. report_spurious wav cf ncf ef i out = Some out'
     \<and> set out \<subseteq> set out'
     \<and> (\<forall>j. unat i \<le> j \<and> j < unat ncf
            \<and> freq_is_listed ef (freqs_per_chan wav) (cf ! j) = Some False
          \<longrightarrow> Spurious (cf ! j) \<in> set out')"
  using assms
proof (induction wav cf ncf ef i out rule: report_spurious.induct)
  case (1 wav cf ncf ef i out)
  show ?case
  proof (cases "i < ncf")
    case False
    then have "\<not> unat i < unat ncf" by (simp add: word_less_nat_alt)
    with False show ?thesis by (subst report_spurious.simps) auto
  next
    case True
    then have k: "unat i < unat ncf" by (simp add: word_less_nat_alt)
    with "1.prems"(1) have r: "rd cf (unat i) = Some (cf ! unat i)"
      by (simp add: rd_def)
    obtain b where b: "freq_is_listed ef (freqs_per_chan wav) (cf ! unat i) = Some b"
      using freq_is_listed_from_returns [OF "1.prems"(2), of 0 "cf ! unat i"]
      unfolding freq_is_listed_def by auto
    let ?out1 = "if \<not> b then out @ [Spurious (cf ! unat i)] else out"
    have s: "unat (i + 1) = Suc (unat i)" using unat_succ_lt [OF True] by simp
    from "1.IH" [OF True r b] "1.prems" succ_le_lt [OF True]
    obtain out' where o: "report_spurious wav cf ncf ef (i + 1) ?out1 = Some out'"
      "set ?out1 \<subseteq> set out'"
      "\<forall>j. unat (i + 1) \<le> j \<and> j < unat ncf
            \<and> freq_is_listed ef (freqs_per_chan wav) (cf ! j) = Some False
          \<longrightarrow> Spurious (cf ! j) \<in> set out'"
      by blast
    have eq: "report_spurious wav cf ncf ef i out = Some out'"
      using True r b o(1) by (subst report_spurious.simps) simp
    have sub: "set out \<subseteq> set out'" using o(2) by (auto split: if_splits)
    have "Spurious (cf ! j) \<in> set out'"
      if j: "unat i \<le> j" "j < unat ncf"
        "freq_is_listed ef (freqs_per_chan wav) (cf ! j) = Some False" for j
    proof (cases "j = unat i")
      case True
      with j(3) b have "\<not> b" by simp
      with o(2) True show ?thesis by auto
    next
      case False
      with j(1) have "unat (i + 1) \<le> j" by (simp add: s)
      with o(3) j(2,3) show ?thesis by blast
    qed
    with eq sub show ?thesis by blast
  qed
qed

text \<open>
  C2.  One channel at 48 kHz, four expected tones (200, 6150, 12100 and 18050 Hz, as the
  planner gives them) and the five detected frequencies 199, 3000, 6150, 12100 and
  18049 Hz.  Every expected frequency is reported as matched, but the difference printed
  for 6150 Hz is \<open>-3150\<close>: it is \<^verbatim>\<open>cfreqs[c][i] - efreqs[c][i]\<close>, taken at the index of
  the expected frequency, and not the first detected frequency within the tolerance
  (6150 Hz) minus the expected one, which is 0.
\<close>

theorem compare_delta_wrong_index:
  "fill_desired_freqs [replicate 4 0] wav_tones = Some (0, [ [200, 6150, 12100, 18050] ], [])
   \<and> compare_channel wav_tones 0 ([199, 3000, 6150, 12100, 18049] @ replicate 59 0) 5
        threshold [200, 6150, 12100, 18050]
      = Some [Expected_header 0 False threshold, Expected_ok 0 200 (Some (- 1)),
          Expected_ok 1 6150 (Some (- 3150)), Expected_ok 2 12100 (Some (- 5950)),
          Expected_ok 3 18050 (Some (- 5950)), Spurious_header 0, Spurious 3000]
   \<and> spec_first_qualifying ([199, 3000, 6150, 12100, 18049] @ replicate 59 0) 5 6150 = Some 6150
   \<and> sint ((6150::uint) - 6150) \<noteq> - 3150"
proof -
  have "fill_desired_freqs [replicate 4 0] wav_tones = Some (0, [ [200, 6150, 12100, 18050] ], [])"
    by code_simp
  moreover have "compare_channel wav_tones 0 ([199, 3000, 6150, 12100, 18049] @ replicate 59 0) 5
        threshold [200, 6150, 12100, 18050]
      = Some [Expected_header 0 False threshold, Expected_ok 0 200 (Some (- 1)),
          Expected_ok 1 6150 (Some (- 3150)), Expected_ok 2 12100 (Some (- 5950)),
          Expected_ok 3 18050 (Some (- 5950)), Spurious_header 0, Spurious 3000]"
    by (simp add: compare_channel_def compare_expected.simps report_spurious.simps
        wav_tones_def freq_is_listed_def freq_is_listed_from.simps rd_def freqs_are_equal_def)
  moreover have "spec_first_qualifying ([199, 3000, 6150, 12100, 18049] @ replicate 59 0) 5 6150
      = Some 6150"
    by (simp add: spec_first_qualifying_def spec_within_tolerance_def)
  ultimately show ?thesis by simp
qed

text \<open>
  C4 as stated fails.  One channel at 422 Hz, four expected tones (200, 202, 204 and
  206 Hz), detected 201 and 209 Hz: 209 Hz is not within 1 Hz of any expected frequency,
  the comparison is active and the detected set is not empty, and no line reports 209 Hz
  as spurious, since two expected frequencies match and \<^verbatim>\<open>found < ncfreqs[c]\<close> is false.
\<close>

theorem spurious_not_reported_counterexample:
  "fill_desired_freqs [replicate 4 0] wav_dense = Some (0, [ [200, 202, 204, 206] ], [])
   \<and> compare_channel wav_dense 0 ([201, 209] @ replicate 62 0) 2 17 [200, 202, 204, 206]
      = Some [Expected_header 0 False 17, Expected_ok 0 200 (Some 1),
          Expected_ok 1 202 (Some 7), Expected_KO 2 204, Expected_KO 3 206]
   \<and> \<not> spec_within_tolerance 209 200 \<and> \<not> spec_within_tolerance 209 202
   \<and> \<not> spec_within_tolerance 209 204 \<and> \<not> spec_within_tolerance 209 206
   \<and> Spurious 209 \<notin> set [Expected_header 0 False 17, Expected_ok 0 200 (Some 1),
          Expected_ok 1 202 (Some 7), Expected_KO 2 204, Expected_KO 3 206]"
proof -
  have "fill_desired_freqs [replicate 4 0] wav_dense = Some (0, [ [200, 202, 204, 206] ], [])"
    by code_simp
  moreover have "compare_channel wav_dense 0 ([201, 209] @ replicate 62 0) 2 17
        [200, 202, 204, 206]
      = Some [Expected_header 0 False 17, Expected_ok 0 200 (Some 1),
          Expected_ok 1 202 (Some 7), Expected_KO 2 204, Expected_KO 3 206]"
    by (simp add: compare_channel_def compare_expected.simps report_spurious.simps
        wav_dense_def freq_is_listed_def freq_is_listed_from.simps rd_def freqs_are_equal_def)
  ultimately show ?thesis by (simp add: spec_within_tolerance_def)
qed

text \<open>
  C4, amended.  For a channel whose number of matched expected frequencies is smaller
  than its number of detected frequencies (\<^verbatim>\<open>found < ncfreqs[c]\<close>), every detected
  frequency that is not within 1 Hz of any expected frequency is reported as spurious.
\<close>

theorem spurious_reported_when_guard:
  assumes "unat ncf \<le> length cf" and "length ef = unat (freqs_per_chan wav)"
    and "compare_expected wav cf ncf ef 0 0 [Expected_header c (ncf = 0) threshold]
           = Some (found, out)"
    and "found < ncf"
    and "j < unat ncf"
    and "\<forall>k < unat (freqs_per_chan wav). \<not> spec_within_tolerance (cf ! j) (ef ! k)"
  shows "\<exists>out'. compare_channel wav c cf ncf threshold ef = Some out'
           \<and> Spurious (cf ! j) \<in> set out'"
proof -
  from assms(6) have "\<forall>k < unat (freqs_per_chan wav).
      \<not> freqs_are_equal (cf ! j) (ef ! k) FREQ_ACCURACY"
    using freqs_are_equal_within by blast
  then have nl: "freq_is_listed ef (freqs_per_chan wav) (cf ! j) = Some False"
    using freq_is_listed_from_unlisted [OF assms(2), of 0 "cf ! j"]
    unfolding freq_is_listed_def by simp
  from report_spurious_lists [OF assms(1,2), of 0 "out @ [Spurious_header c]"]
  obtain out' where o: "report_spurious wav cf ncf ef 0 (out @ [Spurious_header c]) = Some out'"
    "\<forall>j. unat (0::uint) \<le> j \<and> j < unat ncf
            \<and> freq_is_listed ef (freqs_per_chan wav) (cf ! j) = Some False
          \<longrightarrow> Spurious (cf ! j) \<in> set out'"
    by auto
  from o(2) assms(5) nl have "Spurious (cf ! j) \<in> set out'" by simp
  with o(1) assms(3,4) show ?thesis by (simp add: compare_channel_def)
qed

theorem spurious_reported_when_guard_witness:
  "unat (5::uint) \<le> length ([199, 3000, 6150, 12100, 18049] @ replicate 59 (0::uint))
   \<and> compare_expected wav_tones ([199, 3000, 6150, 12100, 18049] @ replicate 59 0) 5
        [200, 6150, 12100, 18050] 0 0 [Expected_header 0 False 17]
      = Some (4, [Expected_header 0 False 17, Expected_ok 0 200 (Some (- 1)),
          Expected_ok 1 6150 (Some (- 3150)), Expected_ok 2 12100 (Some (- 5950)),
          Expected_ok 3 18050 (Some (- 5950))])
   \<and> (4::uint) < 5
   \<and> \<not> spec_within_tolerance 3000 200 \<and> \<not> spec_within_tolerance 3000 6150
   \<and> \<not> spec_within_tolerance 3000 12100 \<and> \<not> spec_within_tolerance 3000 18050
   \<and> (\<exists>out'. compare_channel wav_tones 0 ([199, 3000, 6150, 12100, 18049] @ replicate 59 0) 5
                 17 [200, 6150, 12100, 18050] = Some out'
          \<and> Spurious 3000 \<in> set out')"
proof -
  let ?cf = "[199, 3000, 6150, 12100, 18049] @ replicate 59 (0::uint)"
  let ?ef = "[200, 6150, 12100, 18050] :: uint list"
  have 1: "unat (5::uint) \<le> length ?cf" by simp
  have 2: "length ?ef = unat (freqs_per_chan wav_tones)" by (simp add: wav_tones_def)
  have 3: "compare_expected wav_tones ?cf 5 ?ef 0 0 [Expected_header 0 (5 = (0::uint)) 17]
      = Some (4, [Expected_header 0 False 17, Expected_ok 0 200 (Some (- 1)),
          Expected_ok 1 6150 (Some (- 3150)), Expected_ok 2 12100 (Some (- 5950)),
          Expected_ok 3 18050 (Some (- 5950))])"
    by (simp add: compare_expected.simps
        wav_tones_def freq_is_listed_def freq_is_listed_from.simps rd_def freqs_are_equal_def)
  have 4: "(4::uint) < 5" by simp
  have 5: "1 < unat (5::uint)" by simp
  have t: "\<not> spec_within_tolerance 3000 200 \<and> \<not> spec_within_tolerance 3000 6150
   \<and> \<not> spec_within_tolerance 3000 12100 \<and> \<not> spec_within_tolerance 3000 18050"
    by (simp add: spec_within_tolerance_def)
  have 6: "\<forall>k < unat (freqs_per_chan wav_tones). \<not> spec_within_tolerance (?cf ! 1) (?ef ! k)"
  proof (intro allI impI)
    fix k assume "k < unat (freqs_per_chan wav_tones)"
    then have "k = 0 \<or> k = 1 \<or> k = 2 \<or> k = 3" by (simp add: wav_tones_def) arith
    with t show "\<not> spec_within_tolerance (?cf ! 1) (?ef ! k)" by auto
  qed
  from spurious_reported_when_guard [OF 1 2 3 4 5 6] 1 3 4 t
  show ?thesis by simp
qed

section \<open>Properties of the decoding of the header\<close>

lemma unat_ucast_16_32: "unat (ucast (w :: 16 word) :: uint) = unat w"
proof -
  have "unat w < 2 ^ 16" using unsigned_less [of w, where 'a=nat] by simp
  then have "unat w < 2 ^ 32" by simp
  then show ?thesis by (simp add: unsigned_ucast_eq take_bit_nat_eq_self)
qed

lemma extract_audio_parameters_corrupt:
  assumes "spec_corrupt_header h"
  shows "\<exists>wav err. extract_audio_parameters h wav0 = (- 1, wav, err)"
proof -
  let ?ch = "ucast (hdr_channels h) :: uint" and ?bps = "ucast (hdr_bits_per_sample h) :: uint"
  have ch: "?ch = 0 \<longleftrightarrow> hdr_channels h = 0"
    by (metis unat_ucast_16_32 unat_eq_zero)
  have "unat (chunk_size h mod ?ch) = unat (chunk_size h) mod unat (hdr_channels h)"
    by (simp add: unat_mod unat_ucast_16_32)
  then have md: "chunk_size h mod ?ch \<noteq> 0 \<longleftrightarrow> \<not> unat (hdr_channels h) dvd unat (chunk_size h)"
    by (simp add: unat_eq_zero [symmetric] dvd_eq_mod_eq_0 del: unat_eq_zero)
  have bp: "?bps = of_nat n \<longleftrightarrow> unat (hdr_bits_per_sample h) = n" if "n < 2 ^ 32" for n
  proof -
    have "?bps = of_nat n \<longleftrightarrow> unat ?bps = unat (of_nat n :: uint)"
      by (simp add: word_unat_eq_iff)
    also have "\<dots> \<longleftrightarrow> unat (hdr_bits_per_sample h) = n"
      using that by (simp add: unat_ucast_16_32 unat_of_nat)
    finally show ?thesis .
  qed
  have b32: "?bps = 32 \<longleftrightarrow> unat (hdr_bits_per_sample h) = 32" using bp [of 32] by simp
  have b24: "?bps = 24 \<longleftrightarrow> unat (hdr_bits_per_sample h) = 24" using bp [of 24] by simp
  have b16: "?bps = 16 \<longleftrightarrow> unat (hdr_bits_per_sample h) = 16" using bp [of 16] by simp
  have du: "chunk_size h div ?ch div (?bps div 8) div samples_per_sec h < MIN_DURATION
      \<longleftrightarrow> unat (chunk_size h) div unat (hdr_channels h)
            div (unat (hdr_bits_per_sample h) div 8) div unat (samples_per_sec h)
          < unat MIN_DURATION"
    by (simp add: word_less_nat_alt unat_div unat_ucast_16_32)
  show ?thesis
    using assms
    by (auto simp: extract_audio_parameters_def spec_corrupt_header_def Let_def ch md
        b32 b24 b16 du simp del: MIN_DURATION_def)
qed

lemma size_t_minus_one: "unat (of_int (- 1) :: size_t) = 2 ^ 64 - 1"
  by (simp add: unsigned_minus_1_eq_mask mask_eq_exp_minus_1)

text \<open>
  C7.  For every header with no channel, no sample rate, no data, a data length that
  the channel count does not divide, a sample width outside 16, 24 and 32, or a derived
  duration below the floor, \<^verbatim>\<open>extract_audio_parameters\<close> returns \<open>-1\<close> and \<^verbatim>\<open>main\<close>
  returns \<open>-1\<close> (a non-zero exit status) with nothing written on the standard output,
  whatever \<^verbatim>\<open>malloc\<close> does, for every input shorter than \<open>2^64 - 1\<close> bytes.  (The test
  \<^verbatim>\<open>data_sz <= 0\<close> of \<^verbatim>\<open>main\<close> does not see the \<open>-1\<close>, which is \<open>2^64 - 1\<close> as a
  \<^verbatim>\<open>size_t\<close>; \<^verbatim>\<open>main\<close> then fails to allocate or to read that many bytes.)
\<close>

theorem corrupt_header_fails:
  assumes "spec_corrupt_header h" and "length payload < 2 ^ 64 - 1"
  shows "fst (extract_audio_parameters h wav0) = - 1
     \<and> main_decode malloc_ok analyze wav0 (Some h) payload = (- 1, [])"
proof -
  from extract_audio_parameters_corrupt [OF assms(1), of wav0]
  obtain wav err where e: "extract_audio_parameters h wav0 = (- 1, wav, err)" by blast
  have nz: "\<not> (of_int (- 1) :: size_t) \<le> 0" by simp
  have "length payload < unat (- 1 :: size_t)"
    using assms(2) size_t_minus_one by simp
  then have "\<not> unat (- 1 :: size_t) \<le> length payload" by simp
  with e nz show ?thesis
    by (simp add: main_decode_def Let_def min_def)
qed

theorem corrupt_header_fails_witness:
  "spec_corrupt_header \<lparr>format_tag = 1, hdr_channels = 2, samples_per_sec = 48000,
       avg_bytes_per_sec = 384000, block_align = 8, hdr_bits_per_sample = 32, chunk_size = 7\<rparr>
   \<and> length (replicate 7 (0 :: 8 word)) < 2 ^ 64 - 1
   \<and> fst (extract_audio_parameters \<lparr>format_tag = 1, hdr_channels = 2, samples_per_sec = 48000,
       avg_bytes_per_sec = 384000, block_align = 8, hdr_bits_per_sample = 32, chunk_size = 7\<rparr>
       wav_empty) = - 1
   \<and> main_decode (\<lambda>n. True) (\<lambda>wav buf. (0, [''Frequencies found on channel 0'']))
       wav_empty
       (Some \<lparr>format_tag = 1, hdr_channels = 2, samples_per_sec = 48000,
          avg_bytes_per_sec = 384000, block_align = 8, hdr_bits_per_sample = 32, chunk_size = 7\<rparr>)
       (replicate 7 0) = (- 1, [])"
proof -
  have c: "spec_corrupt_header \<lparr>format_tag = 1, hdr_channels = 2, samples_per_sec = 48000,
       avg_bytes_per_sec = 384000, block_align = 8, hdr_bits_per_sample = 32, chunk_size = 7\<rparr>"
    by (simp add: spec_corrupt_header_def)
  have l: "length (replicate 7 (0 :: 8 word)) < 2 ^ 64 - 1" by simp
  from corrupt_header_fails [OF c l, of wav_empty "\<lambda>n. True"
      "\<lambda>wav buf. (0, [''Frequencies found on channel 0''])"] c l
  show ?thesis by simp
qed

section \<open>Properties of the analysis of one window\<close>

lemma find_peaks_returns:
  "list_inv l \<Longrightarrow> \<exists>l'. find_peaks wav wsize pwr threshold is s l = Some l' \<and> list_inv l'"
proof (induction "is" arbitrary: s l)
  case Nil
  then show ?case by (cases s) simp
next
  case (Cons i "is")
  obtain is_above local_max idx where s: "s = (is_above, local_max, idx)" by (cases s)
  show ?case
  proof (cases "pwr ! i > threshold")
    case True
    with Cons s show ?thesis by simp
  next
    case False
    show ?thesis
    proof (cases is_above)
      case True
      from add_freq_to_list_inv [OF Cons.prems, of "sample_rate wav * of_nat idx div wsize"]
      obtain l1 where "add_freq_to_list l (sample_rate wav * of_nat idx div wsize) = Some l1"
        "list_inv l1" by blast
      with Cons.IH [of l1] False True s show ?thesis by simp
    next
      case na: False
      with Cons False s show ?thesis by simp
    qed
  qed
qed

lemma extract_frequencies_frame_aux:
  assumes "extract_frequencies fft wav st off wsize = Some st'"
  shows "wave st' = wave st" and "\<exists>l t. st' = st\<lparr>detected := l, max_thresh := t\<rparr>"
proof -
  from assms have w: "wave st' = wave st \<and> channel.more st' = channel.more st"
    unfolding extract_frequencies_def Let_def
    by (auto split: step.splits prod.splits if_splits option.splits)
  then show "wave st' = wave st" by simp
  from w have "st' = st\<lparr>detected := detected st', max_thresh := max_thresh st'\<rparr>"
    by (intro channel.equality) simp_all
  then show "\<exists>l t. st' = st\<lparr>detected := l, max_thresh := t\<rparr>" by blast
qed

lemma window_power_length:
  "window_power fft st off wsize = Go pwr \<Longrightarrow> length pwr = unat wsize div 2 + 1"
  by (auto simp: window_power_def power_spectrum_def Let_def split: if_splits option.splits)

lemma extract_frequencies_returns:
  assumes "off + unat wsize \<le> length (wave st)" and "wsize \<noteq> 0" and "sample_rate wav \<noteq> 0"
    and "list_inv (detected st)"
    and "\<forall>xs ys. fft xs = Some ys \<longrightarrow> length ys = length xs"
  shows "\<exists>st'. extract_frequencies fft wav st off wsize = Some st'"
proof -
  let ?data = "map (\<lambda>i. hann_window (take (unat wsize) (drop off (wave st)) ! i) i (unat wsize))
      [0..<unat wsize]"
  show ?thesis
  proof (cases "fft ?data")
    case None
    with assms(1,2) have "window_power fft st off wsize = Return"
      by (simp add: window_power_def Let_def)
    then show ?thesis by (simp add: extract_frequencies_def window_threshold_def)
  next
    case (Some data)
    with assms(5) have "length data = unat wsize" by fastforce
    with Some assms(1,2) have p: "window_power fft st off wsize
        = Go (power_spectrum data (unat wsize))"
      by (simp add: window_power_def Let_def)
    let ?pwr = "power_spectrum data (unat wsize)"
    let ?thr = "maximum_power ?pwr (first_bin wav wsize) (unat wsize div 2) / 2"
    from p assms(3) have t: "window_threshold fft wav st off wsize = Go (?pwr, ?thr)"
      by (simp add: window_threshold_def)
    let ?st1 = "if ?thr > max_thresh st then st\<lparr>max_thresh := ?thr\<rparr> else st"
    have "list_inv (detected ?st1)" using assms(4) by simp
    from find_peaks_returns [OF this]
    obtain l where "find_peaks wav wsize ?pwr ?thr [first_bin wav wsize..<unat wsize div 2]
        (False, 0, 0) (detected ?st1) = Some l" by blast
    with t show ?thesis
      by (simp add: extract_frequencies_def Let_def)
  qed
qed

lemma fft2_length: "\<forall>xs ys. fft2 xs = Some ys \<longrightarrow> length ys = length xs"
  by (auto simp: fft2_def split: list.splits)

lemma hann_window_2: "hann_window v 0 2 = 0" "hann_window v (Suc 0) 2 = v"
  by (simp_all add: hann_window_def)

lemma replicate_2: "replicate 2 x = [x, x]"
  by (simp add: numeral_2_eq_2)

lemma unat_2: "unat (2 :: uint) = 2"
  by simp

lemma upt_2: "[0..<2] = [0, 1]"
  by (simp add: upt_conv_Cons)

lemma maximum_power_zero:
  assumes "\<forall>i \<in> set is. pwr ! i = 0"
  shows "foldl (\<lambda>maximum i. if pwr ! i > maximum then pwr ! i else maximum) (0::real) is = 0"
  using assms by (induction "is") simp_all

lemma power_spectrum_zero:
  assumes "0 < n"
  shows "power_spectrum (replicate n 0) n = replicate (n div 2 + 1) 0"
proof -
  have z: "(if k = n div 2 then replicate n (0::real) ! (n div 2)
         else if k = 0 then replicate n 0 ! 0
         else hypot (replicate n 0 ! k) (replicate n 0 ! (n - k))) = 0"
    if "k < n div 2 + 1" for k
    using that assms by (auto simp: hypot_def)
  have "map (\<lambda>k. if k = n div 2 then replicate n (0::real) ! (n div 2)
         else if k = 0 then replicate n 0 ! 0
         else hypot (replicate n 0 ! k) (replicate n 0 ! (n - k))) [0..<n div 2 + 1]
       = map (\<lambda>k. 0) [0..<n div 2 + 1]"
  proof (rule map_cong [OF refl])
    fix k assume "k \<in> set [0..<n div 2 + 1]"
    then have "k < n div 2 + 1" by auto
    from z [OF this]
    show "(if k = n div 2 then replicate n (0::real) ! (n div 2)
         else if k = 0 then replicate n 0 ! 0
         else hypot (replicate n 0 ! k) (replicate n 0 ! (n - k))) = 0" .
  qed
  then show ?thesis by (simp add: power_spectrum_def map_replicate_const)
qed

lemma silent_window_threshold:
  assumes "wsize \<noteq> 0" and "sample_rate wav \<noteq> 0" and "off + unat wsize \<le> length (wave st)"
    and "\<forall>k < unat wsize. wave st ! (off + k) = 0"
    and "fft (replicate (unat wsize) 0) = Some (replicate (unat wsize) 0)"
  shows "window_threshold fft wav st off wsize = Go (replicate (unat wsize div 2 + 1) 0, 0)"
proof -
  let ?n = "unat wsize"
  from assms(1) have n: "0 < ?n" by (simp add: unat_gt_0)
  have "map (\<lambda>i. hann_window (take ?n (drop off (wave st)) ! i) i ?n) [0..<?n]
      = map (\<lambda>i. 0) [0..<?n]"
    using assms(3,4) by (intro map_cong) (simp_all add: hann_window_def)
  then have d: "map (\<lambda>i. hann_window (take ?n (drop off (wave st)) ! i) i ?n) [0..<?n]
      = replicate ?n 0"
    by (simp add: map_replicate_const)
  have p: "window_power fft st off wsize = Go (replicate (?n div 2 + 1) 0)"
    using assms(1,3,5) n by (simp add: window_power_def Let_def d power_spectrum_zero)
  have "maximum_power (replicate (?n div 2 + 1) 0) (first_bin wav wsize) (?n div 2) = 0"
    unfolding maximum_power_def
  proof (rule maximum_power_zero, rule ballI)
    fix i assume "i \<in> set [first_bin wav wsize..<?n div 2]"
    then have "i < ?n div 2 + 1" by simp
    then show "replicate (?n div 2 + 1) (0::real) ! i = 0" by (rule nth_replicate)
  qed
  with p assms(2) show ?thesis by (simp add: window_threshold_def)
qed

text \<open>
  C9.  Whenever \<^verbatim>\<open>extract_frequencies\<close> returns, the waveform of the caller is as it
  was: the window and the transform work on the local copy, and the state of the caller
  differs at most in the list of detected frequencies (with its count) and in the maximum
  threshold of the channel.  It does return for every window inside the waveform, of at
  least one sample, with a sample rate that is not zero, a list within its capacity and a
  transform that keeps the length of its array.
\<close>

theorem extract_frequencies_keeps_wave:
  "(\<forall>st'. extract_frequencies fft wav st off wsize = Some st' \<longrightarrow>
       wave st' = wave st \<and> (\<exists>l t. st' = st\<lparr>detected := l, max_thresh := t\<rparr>))
   \<and> (off + unat wsize \<le> length (wave st) \<and> wsize \<noteq> 0 \<and> sample_rate wav \<noteq> 0
        \<and> list_inv (detected st) \<and> (\<forall>xs ys. fft xs = Some ys \<longrightarrow> length ys = length xs)
      \<longrightarrow> (\<exists>st'. extract_frequencies fft wav st off wsize = Some st'))"
  using extract_frequencies_frame_aux [of fft wav st off wsize]
    extract_frequencies_returns [of off wsize st wav fft]
  by blast

theorem extract_frequencies_keeps_wave_witness:
  "2 + unat (2 :: uint) \<le> length (wave \<lparr>wave = [0, 0, 0, 20], detected = empty_freq_list, max_thresh = 0\<rparr>)
   \<and> (2 :: uint) \<noteq> 0 \<and> sample_rate wav_default \<noteq> 0 \<and> list_inv empty_freq_list
   \<and> extract_frequencies fft2 wav_default
        \<lparr>wave = [0, 0, 0, 20], detected = empty_freq_list, max_thresh = 0\<rparr> 2 2
      = Some \<lparr>wave = [0, 0, 0, 20], detected = empty_freq_list, max_thresh = 10\<rparr>"
proof -
  let ?st = "\<lparr>wave = [0, 0, 0, 20], detected = empty_freq_list, max_thresh = 0\<rparr>"
  have p: "window_power fft2 ?st 2 2 = Go [20, - 20]"
    by (simp add: window_power_def Let_def upt_2 hann_window_2 fft2_def power_spectrum_def)
  have b: "first_bin wav_default 2 = 0"
    by (simp add: first_bin_def wav_default_def)
  have sr: "sample_rate wav_default \<noteq> 0" by (simp add: wav_default_def)
  have t: "window_threshold fft2 wav_default ?st 2 2 = Go ([20, - 20], 10)"
    by (simp add: window_threshold_def p b sr maximum_power_def)
  have e: "extract_frequencies fft2 wav_default ?st 2 2
      = Some \<lparr>wave = [0, 0, 0, 20], detected = empty_freq_list, max_thresh = 10\<rparr>"
    by (simp add: extract_frequencies_def t b POWER_NOISE_LEVEL_def)
  from extract_frequencies_keeps_wave [of fft2 wav_default ?st 2 2] e fft2_length list_inv_empty sr
  show ?thesis by simp
qed

text \<open>
  C6.  When the threshold of a window, half of the maximum power over the bins
  considered, is below \<open>POWER_NOISE_LEVEL\<close>, \<^verbatim>\<open>extract_frequencies\<close> returns with the
  state of the channel as it was: no frequency added, the maximum threshold unchanged, and
  this is a normal return.  In particular for a window of zeros, which a transform that
  maps zeros to zeros turns into a zero power in every bin and a threshold of 0.
\<close>

theorem extract_frequencies_noise_floor:
  "(window_threshold fft wav st off wsize = Go (pwr, threshold)
        \<and> threshold < POWER_NOISE_LEVEL
      \<longrightarrow> extract_frequencies fft wav st off wsize = Some st)
   \<and> (wsize \<noteq> 0 \<and> sample_rate wav \<noteq> 0 \<and> off + unat wsize \<le> length (wave st)
        \<and> (\<forall>k < unat wsize. wave st ! (off + k) = 0)
        \<and> fft (replicate (unat wsize) 0) = Some (replicate (unat wsize) 0)
      \<longrightarrow> window_threshold fft wav st off wsize = Go (replicate (unat wsize div 2 + 1) 0, 0)
          \<and> extract_frequencies fft wav st off wsize = Some st)"
proof (intro conjI impI)
  assume "window_threshold fft wav st off wsize = Go (pwr, threshold)
        \<and> threshold < POWER_NOISE_LEVEL"
  then show "extract_frequencies fft wav st off wsize = Some st"
    by (simp add: extract_frequencies_def)
next
  assume a: "wsize \<noteq> 0 \<and> sample_rate wav \<noteq> 0 \<and> off + unat wsize \<le> length (wave st)
        \<and> (\<forall>k < unat wsize. wave st ! (off + k) = 0)
        \<and> fft (replicate (unat wsize) 0) = Some (replicate (unat wsize) 0)"
  then show t: "window_threshold fft wav st off wsize = Go (replicate (unat wsize div 2 + 1) 0, 0)"
    using silent_window_threshold [of wsize wav off st fft] by blast
  then show "extract_frequencies fft wav st off wsize = Some st"
    by (simp add: extract_frequencies_def POWER_NOISE_LEVEL_def)
qed

theorem extract_frequencies_noise_floor_witness:
  "(2 :: uint) \<noteq> 0 \<and> sample_rate wav_default \<noteq> 0
   \<and> 2 + unat (2 :: uint) \<le> length (wave \<lparr>wave = [7, 7, 0, 0], detected = empty_freq_list, max_thresh = 3\<rparr>)
   \<and> fft2 (replicate (unat (2 :: uint)) 0) = Some (replicate (unat (2 :: uint)) 0)
   \<and> window_threshold fft2 wav_default
        \<lparr>wave = [7, 7, 0, 0], detected = empty_freq_list, max_thresh = 3\<rparr> 2 2 = Go ([0, 0], 0)
   \<and> (0 :: real) < POWER_NOISE_LEVEL
   \<and> extract_frequencies fft2 wav_default
        \<lparr>wave = [7, 7, 0, 0], detected = empty_freq_list, max_thresh = 3\<rparr> 2 2
      = Some \<lparr>wave = [7, 7, 0, 0], detected = empty_freq_list, max_thresh = 3\<rparr>"
proof -
  let ?st = "\<lparr>wave = [7, 7, 0, 0], detected = empty_freq_list, max_thresh = 3\<rparr>"
  have f: "fft2 (replicate (unat (2 :: uint)) 0) = Some (replicate (unat (2 :: uint)) 0)"
    by (simp only: unat_2 replicate_2) (simp add: fft2_def)
  have z: "\<forall>k < unat (2 :: uint). wave ?st ! (2 + k) = 0"
  proof (intro allI impI)
    fix k :: nat assume "k < unat (2 :: uint)"
    then have "k = 0 \<or> k = 1" by (simp only: unat_2) arith
    then show "wave ?st ! (2 + k) = 0" by auto
  qed
  have sr: "sample_rate wav_default \<noteq> 0" by (simp add: wav_default_def)
  from extract_frequencies_noise_floor [of fft2 wav_default ?st 2 2 "[0, 0]" 0] f z sr
  show ?thesis by (simp add: POWER_NOISE_LEVEL_def)
qed

section \<open>Properties of the quantizer\<close>

lemma frame_index:
  fixes s c ch :: uint
  assumes "unat s < S" and "unat c < unat ch" and "unat ch * S < 4294967296"
  shows "unat (s * ch + c) = unat s * unat ch + unat c"
    and "unat s * unat ch + unat c < unat ch * S"
proof -
  from assms(1) have "unat s + 1 \<le> S" by simp
  then have "(unat s + 1) * unat ch \<le> S * unat ch" by (rule mult_le_mono1)
  moreover have "(unat s + 1) * unat ch = unat s * unat ch + unat ch" by (simp add: algebra_simps)
  ultimately have b: "unat s * unat ch + unat ch \<le> unat ch * S" by (simp add: mult.commute)
  with assms(2) show lt: "unat s * unat ch + unat c < unat ch * S" by linarith
  with assms(3) have small: "unat s * unat ch + unat c < 4294967296" by linarith
  then have "unat s * unat ch < 2 ^ LENGTH(32)" by simp
  then have m: "unat (s * ch) = unat s * unat ch" by (simp only: unat_mult_lem)
  with small have "unat (s * ch) + unat c < 2 ^ LENGTH(32)" by simp
  then have "unat (s * ch + c) = unat (s * ch) + unat c" by (simp only: unat_add_lem)
  with m show "unat (s * ch + c) = unat s * unat ch + unat c" by simp
qed

lemma fill_frame_nth:
  assumes "length waves = unat (channels wav)"
    and "\<forall>w \<in> set waves. length w = unat (samples_per_chan wav)"
    and "length buf = unat (channels wav) * unat (samples_per_chan wav)"
    and "unat (channels wav) * unat (samples_per_chan wav) < 4294967296"
    and "\<forall>c < unat (channels wav). \<forall>s < unat (samples_per_chan wav).
           double_to_int bits (fmul (waves ! c ! s) scale)
             = Some (c_trunc (fmul (waves ! c ! s) scale))"
    and "unat s < unat (samples_per_chan wav)"
    and "c \<le> channels wav"
  shows "\<exists>buf'. fill_frame fmul wav bits scale waves s c buf = Some buf'
     \<and> length buf' = length buf
     \<and> (\<forall>k < length buf. buf' ! k =
          (if unat s * unat (channels wav) + unat c \<le> k
              \<and> k < unat s * unat (channels wav) + unat (channels wav)
           then c_trunc (fmul (waves ! (k - unat s * unat (channels wav)) ! unat s) scale)
           else buf ! k))"
  using assms
proof (induction fmul wav bits scale waves s c buf rule: fill_frame.induct)
  case (1 fmul wav bits scale waves s c buf)
  let ?C = "unat (channels wav)" and ?S = "unat (samples_per_chan wav)"
  show ?case
  proof (cases "c < channels wav")
    case False
    with "1.prems"(7) have "c = channels wav" by simp
    then show ?thesis by (subst fill_frame.simps) simp
  next
    case True
    then have c: "unat c < ?C" by (simp add: word_less_nat_alt)
    note idx = frame_index [OF "1.prems"(6) c "1.prems"(4)]
    let ?i = "unat s * ?C + unat c"
    let ?x = "waves ! unat c ! unat s"
    let ?v = "c_trunc (fmul ?x scale)"
    have r1: "rd waves (unat c) = Some (waves ! unat c)"
      using c "1.prems"(1) by (simp add: rd_def)
    have "waves ! unat c \<in> set waves" using c "1.prems"(1) by simp
    with "1.prems"(2) have "length (waves ! unat c) = ?S" by blast
    with "1.prems"(6) have r2: "rd (waves ! unat c) (unat s) = Some ?x"
      by (simp add: rd_def)
    have d: "double_to_int bits (fmul ?x scale) = Some ?v"
      using "1.prems"(5,6) c by blast
    have w: "wr buf (unat (s * channels wav + c)) ?v = Some (buf[?i := ?v])"
      using idx "1.prems"(3) by (simp add: wr_def)
    have s1: "unat (c + 1) = Suc (unat c)" using unat_succ_lt [OF True] by simp
    from "1.IH" [OF True r1 r2 d w] "1.prems" succ_le_lt [OF True]
    obtain buf' where b: "fill_frame fmul wav bits scale waves s (c + 1) (buf[?i := ?v]) = Some buf'"
      "length buf' = length buf"
      "\<forall>k < length buf. buf' ! k =
          (if unat s * ?C + unat (c + 1) \<le> k \<and> k < unat s * ?C + ?C
           then c_trunc (fmul (waves ! (k - unat s * ?C) ! unat s) scale)
           else buf[?i := ?v] ! k)"
      by auto
    have e: "fill_frame fmul wav bits scale waves s c buf = Some buf'"
      using True r1 r2 d w b(1) by (subst fill_frame.simps) simp
    have "buf' ! k =
          (if ?i \<le> k \<and> k < unat s * ?C + ?C
           then c_trunc (fmul (waves ! (k - unat s * ?C) ! unat s) scale)
           else buf ! k)" if k: "k < length buf" for k
    proof (cases "k = ?i")
      case True
      with b(3) k s1 c show ?thesis by simp
    next
      case False
      with b(3) k s1 show ?thesis by auto
    qed
    with e b(2) show ?thesis by blast
  qed
qed

lemma frame_div_mod:
  fixes k s C :: nat
  assumes "s * C \<le> k" and "k < s * C + C"
  shows "k div C = s" and "k mod C = k - s * C"
proof -
  have "C * s \<le> k" and "k < C * Suc s" using assms by (simp_all add: mult.commute)
  then show d: "k div C = s" by (rule div_nat_eqI)
  have "k mod C = k - C * (k div C)" by (simp only: minus_mult_div_eq_mod)
  with d show "k mod C = k - s * C" by (simp add: mult.commute)
qed

lemma fill_frames_nth:
  assumes "length waves = unat (channels wav)"
    and "\<forall>w \<in> set waves. length w = unat (samples_per_chan wav)"
    and "length buf = unat (channels wav) * unat (samples_per_chan wav)"
    and "unat (channels wav) * unat (samples_per_chan wav) < 4294967296"
    and "\<forall>c < unat (channels wav). \<forall>s < unat (samples_per_chan wav).
           double_to_int bits (fmul (waves ! c ! s) scale)
             = Some (c_trunc (fmul (waves ! c ! s) scale))"
    and "s \<le> samples_per_chan wav"
  shows "\<exists>buf'. fill_frames fmul wav bits scale waves s buf = Some buf'
     \<and> length buf' = length buf
     \<and> (\<forall>k < length buf. buf' ! k =
          (if unat s * unat (channels wav) \<le> k
           then c_trunc (fmul (waves ! (k mod unat (channels wav))
                                  ! (k div unat (channels wav))) scale)
           else buf ! k))"
  using assms
proof (induction fmul wav bits scale waves s buf rule: fill_frames.induct)
  case (1 fmul wav bits scale waves s buf)
  let ?C = "unat (channels wav)" and ?S = "unat (samples_per_chan wav)"
  show ?case
  proof (cases "s < samples_per_chan wav")
    case False
    with "1.prems"(6) have "s = samples_per_chan wav" by simp
    then have "fill_frames fmul wav bits scale waves s buf = Some buf"
      by (subst fill_frames.simps) simp
    moreover have "\<not> unat s * ?C \<le> k" if "k < length buf" for k
      using that "1.prems"(3) \<open>s = samples_per_chan wav\<close> by (simp add: mult.commute)
    ultimately show ?thesis by simp
  next
    case True
    then have lt: "unat s < ?S" by (simp add: word_less_nat_alt)
    from fill_frame_nth [of waves wav buf bits fmul scale s 0] "1.prems"(1-5) lt
    obtain buf1 where f: "fill_frame fmul wav bits scale waves s 0 buf = Some buf1"
      "length buf1 = length buf"
      "\<forall>k < length buf. buf1 ! k =
          (if unat s * ?C \<le> k \<and> k < unat s * ?C + ?C
           then c_trunc (fmul (waves ! (k - unat s * ?C) ! unat s) scale)
           else buf ! k)"
      by auto
    have s1: "unat (s + 1) = Suc (unat s)" using unat_succ_lt [OF True] by simp
    from "1.IH" [OF True f(1)] "1.prems" f(2) succ_le_lt [OF True]
    obtain buf' where b: "fill_frames fmul wav bits scale waves (s + 1) buf1 = Some buf'"
      "length buf' = length buf1"
      "\<forall>k < length buf1. buf' ! k =
          (if unat (s + 1) * ?C \<le> k
           then c_trunc (fmul (waves ! (k mod ?C) ! (k div ?C)) scale)
           else buf1 ! k)"
      by auto
    have e: "fill_frames fmul wav bits scale waves s buf = Some buf'"
      using True f(1) b(1) by (subst fill_frames.simps) simp
    have "buf' ! k =
          (if unat s * ?C \<le> k
           then c_trunc (fmul (waves ! (k mod ?C) ! (k div ?C)) scale)
           else buf ! k)" if k: "k < length buf" for k
    proof (cases "unat (s + 1) * ?C \<le> k")
      case True
      then have "unat s * ?C \<le> k" by (simp add: s1)
      with True b(3) k f(2) show ?thesis by simp
    next
      case False
      then have u: "k < unat s * ?C + ?C" by (simp add: s1)
      from False b(3) k f(2) have 1: "buf' ! k = buf1 ! k" by simp
      show ?thesis
      proof (cases "unat s * ?C \<le> k")
        case True
        from frame_div_mod [OF True u] f(3) k True u 1 show ?thesis by simp
      next
        case False
        with f(3) k 1 show ?thesis by simp
      qed
    qed
    with e b(2) f(2) show ?thesis by auto
  qed
qed

lemma c_trunc_abs_le:
  fixes m :: int
  assumes "\<bar>x\<bar> \<le> of_int m"
  shows "- m \<le> c_trunc x" and "c_trunc x \<le> m"
proof -
  from assms have up: "x \<le> of_int m" and lo: "- of_int m \<le> x" by linarith+
  from assms have "(0::real) \<le> of_int m" by linarith
  then have m: "0 \<le> m" by simp
  show "- m \<le> c_trunc x"
  proof (cases "0 \<le> x")
    case True
    then have "0 \<le> \<lfloor>x\<rfloor>" by simp
    with m have "- m \<le> \<lfloor>x\<rfloor>" by linarith
    with True show ?thesis by (simp add: c_trunc_def)
  next
    case False
    from lo have "- m \<le> \<lceil>x\<rceil>" by (simp add: le_ceiling_iff)
    with False show ?thesis by (simp add: c_trunc_def)
  qed
  show "c_trunc x \<le> m"
  proof (cases "0 \<le> x")
    case True
    from up have "\<lfloor>x\<rfloor> \<le> m" by (simp add: floor_le_iff)
    with True show ?thesis by (simp add: c_trunc_def)
  next
    case False
    then have "\<lceil>x\<rceil> \<le> 0" by (simp add: ceiling_le_iff)
    with m have "\<lceil>x\<rceil> \<le> m" by linarith
    with False show ?thesis by (simp add: c_trunc_def)
  qed
qed

lemma double_to_int_in_range:
  assumes "\<bar>y\<bar> \<le> of_int m" and "m < 2 ^ (bits - 1)"
  shows "double_to_int bits y = Some (c_trunc y)"
proof -
  from c_trunc_abs_le [OF assms(1)] assms(2)
  have "- (2 ^ (bits - 1)) \<le> c_trunc y" and "c_trunc y < 2 ^ (bits - 1)" by linarith+
  then show ?thesis by (simp add: double_to_int_def)
qed

text \<open>
  C3 as stated fails.  The sample \<open>1/4\<close>, whose product with the full scale is a double
  (8191.75 for 16 bits, 536870911.75 for 32 bits), so that the multiplication is exact,
  is stored as 8191 and as 536870911, where rounding to the nearest integer gives 8192
  and 536870912.
\<close>

theorem fill_audio_buf_rounds_counterexample:
  "fill_audio_buf exact_mul [0] [ [1 / 4] ] wav_mono16 = Some [8191]
   \<and> round (1 / 4 * 32767 :: real) = 8192
   \<and> fill_audio_buf exact_mul [0] [ [1 / 4] ] wav_mono32 = Some [536870911]
   \<and> round (1 / 4 * (2 ^ 31 - 1) :: real) = 536870912"
  by (simp add: fill_audio_buf_def fill_frames.simps fill_frame.simps wav_mono16_def
      wav_mono32_def rd_def wr_def double_to_int_def c_trunc_def INT16_MAX_def INT32_MAX_def
      round_def exact_mul_def)

text \<open>
  C3, amended.  For 16 and 32 bits, on the buffer and the waveforms that the generator
  allocates, and samples whose product with the full scale stays within the full scale
  (as for every sample in \<open>[-1, 1]\<close>), \<^verbatim>\<open>fill_audio_buf\<close> stores at the interleaved
  position \<open>sample_index * channel_count + channel_index\<close> the product of the sample with
  the full scale (32767 or \<open>2^31 - 1\<close>) with its fractional part discarded, that is,
  truncated toward zero.
\<close>

theorem fill_audio_buf_truncates:
  assumes "bits_per_sample wav = 16 \<or> bits_per_sample wav = 32"
    and "length waves = unat (channels wav)"
    and "\<forall>w \<in> set waves. length w = unat (samples_per_chan wav)"
    and "length buf = unat (channels wav) * unat (samples_per_chan wav)"
    and "unat (channels wav) * unat (samples_per_chan wav) < 2 ^ 32"
    and "\<forall>c < unat (channels wav). \<forall>s < unat (samples_per_chan wav).
           \<bar>fmul (waves ! c ! s) (spec_full_scale wav)\<bar> \<le> spec_full_scale wav"
  shows "\<exists>buf'. fill_audio_buf fmul buf waves wav = Some buf'
     \<and> length buf' = length buf
     \<and> (\<forall>s < unat (samples_per_chan wav). \<forall>c < unat (channels wav).
           buf' ! (s * unat (channels wav) + c)
             = c_trunc (fmul (waves ! c ! s) (spec_full_scale wav)))"
proof -
  let ?C = "unat (channels wav)" and ?S = "unat (samples_per_chan wav)"
  let ?fs = "spec_full_scale wav"
  obtain bits :: nat and m :: int where
    bm: "bits = 16 \<and> m = 32767 \<or> bits = 32 \<and> m = 2147483647"
    and fs: "?fs = of_int m"
    and call: "fill_audio_buf fmul buf waves wav = fill_frames fmul wav bits ?fs waves 0 buf"
  proof (cases "bits_per_sample wav = 16")
    case True
    then have "?fs = of_int 32767"
      and "fill_audio_buf fmul buf waves wav = fill_frames fmul wav 16 ?fs waves 0 buf"
      by (simp_all add: spec_full_scale_def fill_audio_buf_def INT16_MAX_def)
    then show ?thesis using that [of 16 32767] by blast
  next
    case False
    with assms(1) have "bits_per_sample wav = 32" by simp
    then have "?fs = of_int 2147483647"
      and "fill_audio_buf fmul buf waves wav = fill_frames fmul wav 32 ?fs waves 0 buf"
      by (simp_all add: spec_full_scale_def fill_audio_buf_def INT32_MAX_def)
    then show ?thesis using that [of 32 2147483647] by blast
  qed
  from bm have small: "m < 2 ^ (bits - 1)" by auto
  have conv: "\<forall>c < ?C. \<forall>s < ?S.
      double_to_int bits (fmul (waves ! c ! s) ?fs) = Some (c_trunc (fmul (waves ! c ! s) ?fs))"
  proof (intro allI impI)
    fix c s assume "c < ?C" "s < ?S"
    with assms(6) have "\<bar>fmul (waves ! c ! s) ?fs\<bar> \<le> of_int m" using fs by simp
    then show "double_to_int bits (fmul (waves ! c ! s) ?fs)
        = Some (c_trunc (fmul (waves ! c ! s) ?fs))"
      using small by (rule double_to_int_in_range)
  qed
  from assms(5) have lim: "?C * ?S < 4294967296" by simp
  from fill_frames_nth [of waves wav buf bits fmul ?fs 0] assms(2,3,4) lim conv
  obtain buf' where b: "fill_frames fmul wav bits ?fs waves 0 buf = Some buf'"
    "length buf' = length buf"
    "\<forall>k < length buf. buf' ! k = c_trunc (fmul (waves ! (k mod ?C) ! (k div ?C)) ?fs)"
    by auto
  have "buf' ! (s * ?C + c) = c_trunc (fmul (waves ! c ! s) ?fs)"
    if s: "s < ?S" and c: "c < ?C" for s c
  proof -
    from s have "s + 1 \<le> ?S" by simp
    then have "(s + 1) * ?C \<le> ?S * ?C" by (rule mult_le_mono1)
    moreover have "(s + 1) * ?C = s * ?C + ?C" by (simp add: algebra_simps)
    ultimately have "s * ?C + ?C \<le> ?C * ?S" by (simp add: mult.commute)
    with c have k: "s * ?C + c < length buf" using assms(4) by linarith
    have "s * ?C \<le> s * ?C + c" and "s * ?C + c < s * ?C + ?C" using c by simp_all
    from frame_div_mod [OF this] have "(s * ?C + c) div ?C = s" "(s * ?C + c) mod ?C = c"
      by simp_all
    with b(3) k show ?thesis by simp
  qed
  with b(1,2) call show ?thesis by simp
qed

theorem fill_audio_buf_truncates_witness:
  "bits_per_sample wav_stereo16 = 16
   \<and> length [ [1 / 4, - 1], [1, - 1 / 4 :: real] ] = unat (channels wav_stereo16)
   \<and> length [0, 0, 0, 0 :: int] = unat (channels wav_stereo16) * unat (samples_per_chan wav_stereo16)
   \<and> fill_audio_buf exact_mul [0, 0, 0, 0] [ [1 / 4, - 1], [1, - 1 / 4] ] wav_stereo16
        = Some [8191, 32767, - 32767, - 8191]
   \<and> c_trunc (1 / 4 * spec_full_scale wav_stereo16) = 8191
   \<and> c_trunc (- 1 / 4 * spec_full_scale wav_stereo16) = - 8191"
proof -
  let ?waves = "[ [1 / 4, - 1], [1, - 1 / 4 :: real] ]"
  have 1: "bits_per_sample wav_stereo16 = 16 \<or> bits_per_sample wav_stereo16 = 32"
    by (simp add: wav_stereo16_def)
  have 2: "length ?waves = unat (channels wav_stereo16)" by (simp add: wav_stereo16_def)
  have 3: "\<forall>w \<in> set ?waves. length w = unat (samples_per_chan wav_stereo16)"
    by (simp add: wav_stereo16_def)
  have 4: "length [0, 0, 0, 0 :: int]
      = unat (channels wav_stereo16) * unat (samples_per_chan wav_stereo16)"
    by (simp add: wav_stereo16_def)
  have 5: "unat (channels wav_stereo16) * unat (samples_per_chan wav_stereo16) < 2 ^ 32"
    by (simp add: wav_stereo16_def)
  have 6: "\<forall>c < unat (channels wav_stereo16). \<forall>s < unat (samples_per_chan wav_stereo16).
      \<bar>exact_mul (?waves ! c ! s) (spec_full_scale wav_stereo16)\<bar>
        \<le> spec_full_scale wav_stereo16"
  proof (intro allI impI)
    fix c s :: nat
    assume "c < unat (channels wav_stereo16)" "s < unat (samples_per_chan wav_stereo16)"
    then have "c = 0 \<or> c = 1" "s = 0 \<or> s = 1" by (simp_all add: wav_stereo16_def) arith+
    then show "\<bar>exact_mul (?waves ! c ! s) (spec_full_scale wav_stereo16)\<bar>
        \<le> spec_full_scale wav_stereo16"
      by (auto simp: spec_full_scale_def wav_stereo16_def exact_mul_def)
  qed
  have e: "fill_audio_buf exact_mul [0, 0, 0, 0] ?waves wav_stereo16
      = Some [8191, 32767, - 32767, - 8191]"
    by (simp add: fill_audio_buf_def fill_frames.simps fill_frame.simps wav_stereo16_def
        rd_def wr_def double_to_int_def c_trunc_def INT16_MAX_def exact_mul_def)
  have t: "c_trunc (1 / 4 * spec_full_scale wav_stereo16) = 8191"
    "c_trunc (- 1 / 4 * spec_full_scale wav_stereo16) = - 8191"
    by (simp_all add: c_trunc_def spec_full_scale_def wav_stereo16_def)
  from fill_audio_buf_truncates [of wav_stereo16 ?waves "[0, 0, 0, 0]" exact_mul, OF 1 2 3 4 5 6]
    4 e t
  show ?thesis by (simp add: wav_stereo16_def)
qed

end
